theory Spec2Isabelle
  imports Complex_Main
begin

section \<open>JavaScript numbers and their text\<close>

text \<open>
  The component computes on JavaScript numbers, the binary64 numbers of IEEE 754. A finite
  number other than the negative zero is \<open>Fin q\<close> with its exact value \<open>q\<close>, a rational;
  \<open>Fin 0\<close> is the positive zero. The arithmetic operations compute the exact result and
  round it to the nearest binary64 number, a tie to the even significand, as the language
  does; so they return binary64 numbers, with overflow to the infinities and underflow to
  the subnormal numbers and the zeros. The values that division by zero brings in are kept
  apart, with the sign of zero, because the source's rate-of-change formulas divide by a
  reading.
\<close>

datatype jsnum = Fin rat | NegZero | PosInf | NegInf | NaN

fun is_neg :: "jsnum \<Rightarrow> bool" where
  "is_neg (Fin q) = (q < 0)"
| "is_neg NegZero = True"
| "is_neg NegInf = True"
| "is_neg PosInf = False"
| "is_neg NaN = False"

fun is_zero :: "jsnum \<Rightarrow> bool" where
  "is_zero (Fin q) = (q = 0)"
| "is_zero NegZero = True"
| "is_zero _ = False"

fun is_inf :: "jsnum \<Rightarrow> bool" where
  "is_inf PosInf = True"
| "is_inf NegInf = True"
| "is_inf _ = False"

fun rat_of :: "jsnum \<Rightarrow> rat" where
  "rat_of (Fin q) = q"
| "rat_of _ = 0"

definition zero_s :: "bool \<Rightarrow> jsnum" where
  "zero_s neg = (if neg then NegZero else Fin 0)"

definition inf_s :: "bool \<Rightarrow> jsnum" where
  "inf_s neg = (if neg then NegInf else PosInf)"

fun js_neg :: "jsnum \<Rightarrow> jsnum" where
  "js_neg (Fin q) = (if q = 0 then NegZero else Fin (- q))"
| "js_neg NegZero = Fin 0"
| "js_neg PosInf = NegInf"
| "js_neg NegInf = PosInf"
| "js_neg NaN = NaN"

subsection \<open>Rounding to binary64\<close>

text \<open>The number of binary digits of a natural number.\<close>

fun bit_len :: "nat \<Rightarrow> nat" where
  "bit_len n = (if n = 0 then 0 else Suc (bit_len (n div 2)))"

declare bit_len.simps [simp del]

text \<open>For a positive \<open>x\<close>, the exponent \<open>e\<close> with \<open>2^e \<le> x < 2^(e+1)\<close>.\<close>

definition ilog2 :: "rat \<Rightarrow> int" where
  "ilog2 x =
     (if 1 \<le> x then int (bit_len (nat \<lfloor>x\<rfloor>)) - 1
      else - int (bit_len (nat (\<lceil>1 / x\<rceil> - 1))))"

text \<open>The nearest integer, the even one of two nearest.\<close>

definition round_half_even :: "rat \<Rightarrow> int" where
  "round_half_even y =
     (let f = \<lfloor>y\<rfloor>;
          r = y - of_int f
      in if r < 1 / 2 then f
         else if 1 / 2 < r then f + 1
         else if even f then f else f + 1)"

text \<open>
  The binary64 number nearest to a rational \<open>x\<close>. The significand has 53 binary digits,
  so with \<open>2^e \<le> |x| < 2^(e+1)\<close> the result is a multiple of \<open>2^(e-52)\<close>, and of
  \<open>2^(-1074)\<close> at least, the spacing of the subnormal numbers. A result of magnitude
  \<open>2^1024\<close> is the infinity of the sign of \<open>x\<close>, and a result that is zero keeps the sign
  of \<open>x\<close>.
\<close>

definition round64 :: "rat \<Rightarrow> jsnum" where
  "round64 x =
     (if x = 0 then Fin 0
      else
        let e = ilog2 \<bar>x\<bar>;
            q = max (e - 52) (- 1074);
            m = round_half_even (\<bar>x\<bar> / 2 powi q);
            v = of_int m * 2 powi q
        in if 2 ^ 1024 \<le> v then inf_s (x < 0)
           else if m = 0 then zero_s (x < 0)
           else Fin (if x < 0 then - v else v))"

subsection \<open>Arithmetic\<close>

text \<open>
  \<open>a + b\<close>: an exact sum that is zero is the positive zero, unless both are negative
  zeros; any other sum is rounded.
\<close>

fun js_add :: "jsnum \<Rightarrow> jsnum \<Rightarrow> jsnum" where
  "js_add NaN _ = NaN"
| "js_add _ NaN = NaN"
| "js_add PosInf NegInf = NaN"
| "js_add NegInf PosInf = NaN"
| "js_add PosInf _ = PosInf"
| "js_add _ PosInf = PosInf"
| "js_add NegInf _ = NegInf"
| "js_add _ NegInf = NegInf"
| "js_add NegZero NegZero = NegZero"
| "js_add NegZero (Fin y) = Fin y"
| "js_add (Fin x) NegZero = Fin x"
| "js_add (Fin x) (Fin y) = (if x + y = 0 then Fin 0 else round64 (x + y))"

text \<open>\<open>a - b\<close> is \<open>a + (-b)\<close>.\<close>

definition js_sub :: "jsnum \<Rightarrow> jsnum \<Rightarrow> jsnum" where
  "js_sub a b = js_add a (js_neg b)"

definition js_mul :: "jsnum \<Rightarrow> jsnum \<Rightarrow> jsnum" where
  "js_mul a b =
     (if a = NaN \<or> b = NaN \<or> (is_zero a \<and> is_inf b) \<or> (is_inf a \<and> is_zero b) then NaN
      else if is_inf a \<or> is_inf b then inf_s (is_neg a \<noteq> is_neg b)
      else if is_zero a \<or> is_zero b then zero_s (is_neg a \<noteq> is_neg b)
      else round64 (rat_of a * rat_of b))"

definition js_div :: "jsnum \<Rightarrow> jsnum \<Rightarrow> jsnum" where
  "js_div a b =
     (if a = NaN \<or> b = NaN \<or> (is_zero a \<and> is_zero b) \<or> (is_inf a \<and> is_inf b) then NaN
      else if is_inf a \<or> is_zero b then inf_s (is_neg a \<noteq> is_neg b)
      else if is_inf b \<or> is_zero a then zero_s (is_neg a \<noteq> is_neg b)
      else round64 (rat_of a / rat_of b))"

text \<open>
  The order \<open>Math.max\<close> and \<open>Math.min\<close> use on numbers other than NaN: the negative
  zero lies below the positive zero.
\<close>

fun js_less :: "jsnum \<Rightarrow> jsnum \<Rightarrow> bool" where
  "js_less NaN _ = False"
| "js_less _ NaN = False"
| "js_less _ NegInf = False"
| "js_less NegInf _ = True"
| "js_less PosInf _ = False"
| "js_less _ PosInf = True"
| "js_less NegZero NegZero = False"
| "js_less NegZero (Fin y) = (0 \<le> y)"
| "js_less (Fin x) NegZero = (x < 0)"
| "js_less (Fin x) (Fin y) = (x < y)"

definition max2 :: "jsnum \<Rightarrow> jsnum \<Rightarrow> jsnum" where
  "max2 highest number =
     (if highest = NaN \<or> number = NaN then NaN
      else if js_less highest number then number else highest)"

definition min2 :: "jsnum \<Rightarrow> jsnum \<Rightarrow> jsnum" where
  "min2 lowest number =
     (if lowest = NaN \<or> number = NaN then NaN
      else if js_less number lowest then number else lowest)"

text \<open>\<open>Math.max(...xs)\<close> and \<open>Math.min(...xs)\<close>.\<close>

definition Math_max :: "jsnum list \<Rightarrow> jsnum" where
  "Math_max xs = foldl max2 NegInf xs"

definition Math_min :: "jsnum list \<Rightarrow> jsnum" where
  "Math_min xs = foldl min2 PosInf xs"

subsection \<open>Decimal digits\<close>

definition digit_char :: "nat \<Rightarrow> char" where
  "digit_char d = char_of (48 + d)"

text \<open>The decimal digits of a natural number, \<open>''0''\<close> for zero.\<close>

fun digits :: "nat \<Rightarrow> string" where
  "digits n = (if n < 10 then [digit_char n] else digits (n div 10) @ [digit_char (n mod 10)])"

declare digits.simps [simp del]

definition isDigit :: "char \<Rightarrow> bool" where
  "isDigit c = (48 \<le> (of_char c :: nat) \<and> (of_char c :: nat) \<le> 57)"

definition digitVal :: "char \<Rightarrow> nat" where
  "digitVal c = of_char c - 48"

definition digitsVal :: "string \<Rightarrow> nat" where
  "digitsVal s = foldl (\<lambda>a c. 10 * a + digitVal c) 0 s"

subsection \<open>Number to text\<close>

text \<open>
  \<open>Number::toString\<close> prints a finite number with the fewest digits that read back
  as the same binary64 value. That text is not computed here: the conversion of a finite
  non-zero number is a parameter \<open>ts\<close> of the model, and the theorems hold for every
  \<open>ts\<close>. The other cases are fixed by the language.
\<close>

definition numberToString :: "(rat \<Rightarrow> string) \<Rightarrow> jsnum \<Rightarrow> string" where
  "numberToString ts x =
     (case x of
        NaN \<Rightarrow> ''NaN''
      | PosInf \<Rightarrow> ''Infinity''
      | NegInf \<Rightarrow> ''-Infinity''
      | NegZero \<Rightarrow> ''0''
      | Fin q \<Rightarrow> (if q = 0 then ''0'' else ts q))"

text \<open>
  \<open>x.toFixed(fd)\<close> for \<open>fd\<close> in 0..100. A number that is not finite prints as
  \<open>Number::toString\<close> prints it. Otherwise the sign is split off (the negative zero has
  none), a magnitude from \<open>10^21\<close> on prints as \<open>Number::toString\<close> prints it, and a
  smaller one is scaled by \<open>10^fd\<close> and rounded to the nearest integer \<open>n\<close>, the larger
  one of two nearest; the digits of \<open>n\<close> are padded with zeros to \<open>fd + 1\<close> places and
  the point stands before the last \<open>fd\<close>.
\<close>

definition toFixed :: "(rat \<Rightarrow> string) \<Rightarrow> nat \<Rightarrow> jsnum \<Rightarrow> string" where
  "toFixed ts fd x =
     (if x = NaN \<or> is_inf x then numberToString ts x
      else
        let s = (if rat_of x < 0 then ''-'' else '''');
            x = \<bar>rat_of x\<bar>
        in if x \<ge> 10 ^ 21 then s @ numberToString ts (Fin x)
           else
             let n = nat \<lfloor>x * 10 ^ fd + 1 / 2\<rfloor>;
                 m = digits n;
                 m = (if fd \<noteq> 0 then
                        let k = length m;
                            m = (if k \<le> fd then replicate (fd + 1 - k) (CHR ''0'') @ m else m);
                            k = (if k \<le> fd then fd + 1 else k);
                            a = take (k - fd) m;
                            b = drop (k - fd) m
                        in a @ ''.'' @ b
                      else m)
             in s @ m)"

subsection \<open>Text to number\<close>

text \<open>
  \<open>parseFloat\<close> on ASCII text: leading white space is dropped, then the longest prefix
  that is a decimal literal (an optional sign, then \<open>Infinity\<close> or digits with an optional
  fraction and an optional exponent) is read; without such a prefix the result is NaN.
\<close>

definition isStrWhiteSpaceChar :: "char \<Rightarrow> bool" where
  "isStrWhiteSpaceChar c = ((of_char c :: nat) \<in> {9, 10, 11, 12, 13, 32})"

definition exponentPart :: "string \<Rightarrow> int" where
  "exponentPart r =
     (case r of
        [] \<Rightarrow> 0
      | c # r1 \<Rightarrow>
          if c = CHR ''e'' \<or> c = CHR ''E'' then
            (case r1 of
               [] \<Rightarrow> 0
             | d # r2 \<Rightarrow>
                 if d = CHR ''-'' then
                   (if takeWhile isDigit r2 = [] then 0 else - int (digitsVal (takeWhile isDigit r2)))
                 else if d = CHR ''+'' then
                   (if takeWhile isDigit r2 = [] then 0 else int (digitsVal (takeWhile isDigit r2)))
                 else int (digitsVal (takeWhile isDigit r1)))
          else 0)"

text \<open>
  The number a decimal literal at the start of \<open>rest\<close> denotes, after the sign: its decimal
  value rounded to binary64.
\<close>

definition strDecimalLiteral :: "bool \<Rightarrow> string \<Rightarrow> jsnum" where
  "strDecimalLiteral neg rest =
     (if take 8 rest = ''Infinity'' then inf_s neg
      else
        let ip = takeWhile isDigit rest;
            r1 = dropWhile isDigit rest;
            fp = (if take 1 r1 = ''.'' then takeWhile isDigit (drop 1 r1) else []);
            r2 = (if take 1 r1 = ''.'' then dropWhile isDigit (drop 1 r1) else r1)
        in if ip = [] \<and> fp = [] then NaN
           else
             let mag = (of_nat (digitsVal ip) + of_nat (digitsVal fp) / 10 ^ length fp)
                         * 10 powi exponentPart r2
             in if mag = 0 then zero_s neg else round64 (if neg then - mag else mag))"

definition parseFloat :: "string \<Rightarrow> jsnum" where
  "parseFloat input =
     (let trimmed = dropWhile isStrWhiteSpaceChar input;
          neg = (take 1 trimmed = ''-'');
          rest = (if take 1 trimmed = ''-'' \<or> take 1 trimmed = ''+'' then drop 1 trimmed else trimmed)
      in strDecimalLiteral neg rest)"

subsection \<open>Finite values and rounding\<close>

text \<open>\<open>Number.isFinite\<close>\<close>

definition is_finite :: "jsnum \<Rightarrow> bool" where
  "is_finite x = (x \<noteq> NaN \<and> \<not> is_inf x)"

text \<open>
  A rational rounded to two decimals, a tie away from zero. The theorems use it to say
  which number the text of \<open>toFixed(2)\<close> denotes.
\<close>

definition round2 :: "rat \<Rightarrow> rat" where
  "round2 q = sgn q * of_int \<lfloor>\<bar>q\<bar> * 100 + 1 / 2\<rfloor> / 100"

section \<open>Readings and array slices\<close>

record reading =
  tempF :: jsnum
  pressurePSI :: jsnum
  vibrationMM :: jsnum
  timestamp :: string

text \<open>
  \<open>xs.slice(start, end)\<close> and \<open>xs.slice(start)\<close> for indices that are natural numbers:
  both ends are cut at the length, and an end before the start gives the empty array.
\<close>

definition slice :: "'a list \<Rightarrow> nat \<Rightarrow> nat \<Rightarrow> 'a list" where
  "slice xs start end' = take (min end' (length xs) - min start (length xs)) (drop (min start (length xs)) xs)"

definition slice_from :: "'a list \<Rightarrow> nat \<Rightarrow> 'a list" where
  "slice_from xs start = drop (min start (length xs)) xs"

section \<open>Chunked metrics\<close>

record chunkConfig =
  size_cfg :: nat
  label_cfg :: string

text \<open>
  The table \<open>chunkSizes\<close>. Its keys are the texts of the numbers 1, 4, 8, 12 and 24, and a
  number's text is one of them only for that number, so the table is keyed by the number.
\<close>

definition chunkSizes :: "jsnum \<rightharpoonup> chunkConfig" where
  "chunkSizes = map_of
     [(Fin 1, \<lparr>size_cfg = 15, label_cfg = ''15min''\<rparr>),
      (Fin 4, \<lparr>size_cfg = 60, label_cfg = ''1hr''\<rparr>),
      (Fin 8, \<lparr>size_cfg = 60, label_cfg = ''1hr''\<rparr>),
      (Fin 12, \<lparr>size_cfg = 120, label_cfg = ''2hr''\<rparr>),
      (Fin 24, \<lparr>size_cfg = 180, label_cfg = ''3hr''\<rparr>)]"

text \<open>\<open>chunkSizes[timeRange] || { size: 60, label: "1hr" }\<close>\<close>

definition chunkConfigOf :: "jsnum \<Rightarrow> chunkConfig" where
  "chunkConfigOf timeRange =
     (case chunkSizes timeRange of
        Some c \<Rightarrow> c
      | None \<Rightarrow> \<lparr>size_cfg = 60, label_cfg = ''1hr''\<rparr>)"

record chunk =
  chunkIndex :: nat
  label :: string
  timeLabel :: string
  tempMean :: string
  pressureMean :: string
  vibrationMean :: string
  tempRoC :: string
  pressureRoC :: string
  vibrationRoC :: string

text \<open>\<open>values.reduce((a, b) => a + b, 0) / values.length\<close>\<close>

definition mean :: "jsnum list \<Rightarrow> jsnum" where
  "mean vs = js_div (foldl js_add (Fin 0) vs) (Fin (of_nat (length vs)))"

text \<open>The rate of change of one metric over a chunk, from its first to its last value.\<close>

definition chunkRoC :: "(rat \<Rightarrow> string) \<Rightarrow> jsnum list \<Rightarrow> string" where
  "chunkRoC ts vs =
     (if length vs > 1
      then toFixed ts 2
             (js_mul (js_div (js_sub (vs ! (length vs - 1)) (vs ! 0)) (vs ! 0)) (Fin 100))
      else ''0.00'')"

text \<open>
  The period label of chunk \<open>i\<close> of \<open>numChunks\<close>. \<open>i < numChunks\<close> in the loop, so the
  differences are natural numbers.
\<close>

definition periodLabel :: "jsnum \<Rightarrow> chunkConfig \<Rightarrow> nat \<Rightarrow> nat \<Rightarrow> string" where
  "periodLabel timeRange cfg numChunks i =
     (let hoursAgoEnd = nat \<lfloor>rat_of_nat ((numChunks - i - 1) * size_cfg cfg) / 60\<rfloor>;
          hoursAgoStart = nat \<lfloor>rat_of_nat ((numChunks - i) * size_cfg cfg) / 60\<rfloor>
      in if hoursAgoEnd = 0 then ''Last '' @ label_cfg cfg
         else if timeRange = Fin 1 then
           (let minsAgoEnd = (numChunks - i - 1) * 15;
                minsAgoStart = (numChunks - i) * 15
            in digits minsAgoStart @ ''-'' @ digits minsAgoEnd @ '' mins ago'')
         else if hoursAgoStart = hoursAgoEnd then digits hoursAgoEnd @ ''hr ago''
         else digits hoursAgoStart @ ''-'' @ digits hoursAgoEnd @ ''hrs ago'')"

text \<open>The object pushed for chunk \<open>i\<close>, built from the readings of its slice.\<close>

definition makeChunk ::
  "(rat \<Rightarrow> string) \<Rightarrow> jsnum \<Rightarrow> chunkConfig \<Rightarrow> nat \<Rightarrow> nat \<Rightarrow> reading list \<Rightarrow> chunk" where
  "makeChunk ts timeRange cfg numChunks i chunkReadings =
     (let tempValues = map tempF chunkReadings;
          pressureValues = map pressurePSI chunkReadings;
          vibrationValues = map vibrationMM chunkReadings
      in \<lparr>chunkIndex = i,
           label = periodLabel timeRange cfg numChunks i,
           timeLabel = label_cfg cfg,
           tempMean = toFixed ts 2 (mean tempValues),
           pressureMean = toFixed ts 2 (mean pressureValues),
           vibrationMean = toFixed ts 2 (mean vibrationValues),
           tempRoC = chunkRoC ts tempValues,
           pressureRoC = chunkRoC ts pressureValues,
           vibrationRoC = chunkRoC ts vibrationValues\<rparr>)"

text \<open>The readings of chunk \<open>i\<close>: \<open>readings.slice(start, end)\<close>.\<close>

definition chunkReadingsOf :: "reading list \<Rightarrow> nat \<Rightarrow> nat \<Rightarrow> reading list" where
  "chunkReadingsOf readings chunkSize i =
     (let start = i * chunkSize;
          end' = min (start + chunkSize) (length readings)
      in slice readings start end')"

text \<open>
  The loop \<open>for (let i = 0; i < numChunks; i++)\<close>, from \<open>i\<close> on, with the chunks pushed
  so far; an empty slice is skipped.
\<close>

function chunkLoop ::
  "(rat \<Rightarrow> string) \<Rightarrow> reading list \<Rightarrow> jsnum \<Rightarrow> chunkConfig \<Rightarrow> nat \<Rightarrow> nat \<Rightarrow> chunk list \<Rightarrow> chunk list" where
  "chunkLoop ts readings timeRange cfg numChunks i chunks =
     (if i < numChunks then
        (let chunkReadings = chunkReadingsOf readings (size_cfg cfg) i
         in if length chunkReadings = 0
            then chunkLoop ts readings timeRange cfg numChunks (i + 1) chunks
            else chunkLoop ts readings timeRange cfg numChunks (i + 1)
                   (chunks @ [makeChunk ts timeRange cfg numChunks i chunkReadings]))
      else chunks)"
  by pat_completeness auto
termination
  by (relation "measure (\<lambda>(ts, readings, timeRange, cfg, numChunks, i, chunks). numChunks - i)") auto

declare chunkLoop.simps [simp del]

text \<open>The chunks in the order the loop pushes them, before the final reversal.\<close>

definition generatedChunks :: "(rat \<Rightarrow> string) \<Rightarrow> reading list \<Rightarrow> jsnum \<Rightarrow> chunk list" where
  "generatedChunks ts readings timeRange =
     (let chunkConfig = chunkConfigOf timeRange;
          chunkSize = size_cfg chunkConfig;
          numChunks = nat \<lceil>rat_of_nat (length readings) / rat_of_nat chunkSize\<rceil>
      in chunkLoop ts readings timeRange chunkConfig numChunks 0 [])"

definition calculateChunkedMetrics :: "(rat \<Rightarrow> string) \<Rightarrow> reading list \<Rightarrow> jsnum \<Rightarrow> chunk list" where
  "calculateChunkedMetrics ts readings timeRange =
     (if length readings = 0 then []
      else rev (generatedChunks ts readings timeRange))"

section \<open>Half-to-half trend\<close>

text \<open>
  The split of the chronological readings at \<open>Math.floor(length / 2)\<close> into the older
  and the newer half.
\<close>

definition halves :: "'a list \<Rightarrow> 'a list \<times> 'a list" where
  "halves chronologicalReadings =
     (let midpoint = nat \<lfloor>rat_of_nat (length chronologicalReadings) / 2\<rfloor>;
          firstHalf = slice chronologicalReadings 0 midpoint;
          secondHalf = slice_from chronologicalReadings midpoint
      in (firstHalf, secondHalf))"

record halfMetrics =
  tempAvg :: string
  tempMax :: string
  tempMin :: string
  pressureAvg :: string
  pressureMax :: string
  pressureMin :: string
  vibrationAvg :: string
  vibrationMax :: string
  vibrationMin :: string

definition calcMetrics :: "(rat \<Rightarrow> string) \<Rightarrow> reading list \<Rightarrow> halfMetrics" where
  "calcMetrics ts data =
     (let temps = map tempF data;
          pressures = map pressurePSI data;
          vibrations = map vibrationMM data
      in \<lparr>tempAvg = (if length temps > 0 then toFixed ts 2 (mean temps) else ''N/A''),
           tempMax = (if length temps > 0 then toFixed ts 2 (Math_max temps) else ''N/A''),
           tempMin = (if length temps > 0 then toFixed ts 2 (Math_min temps) else ''N/A''),
           pressureAvg = (if length pressures > 0 then toFixed ts 2 (mean pressures) else ''N/A''),
           pressureMax = (if length pressures > 0 then toFixed ts 2 (Math_max pressures) else ''N/A''),
           pressureMin = (if length pressures > 0 then toFixed ts 2 (Math_min pressures) else ''N/A''),
           vibrationAvg = (if length vibrations > 0 then toFixed ts 2 (mean vibrations) else ''N/A''),
           vibrationMax = (if length vibrations > 0 then toFixed ts 2 (Math_max vibrations) else ''N/A''),
           vibrationMin = (if length vibrations > 0 then toFixed ts 2 (Math_min vibrations) else ''N/A'')\<rparr>)"

definition calcRoc :: "(rat \<Rightarrow> string) \<Rightarrow> string \<Rightarrow> string \<Rightarrow> string" where
  "calcRoc ts first second =
     (if first = ''N/A'' \<or> second = ''N/A'' then ''N/A''
      else toFixed ts 2
             (js_mul (js_div (js_sub (parseFloat second) (parseFloat first)) (parseFloat first))
                (Fin 100)))"

text \<open>
  The nine rates of change of the trend table, row by row (average, maximum, minimum), each
  row for temperature, pressure and vibration.
\<close>

definition trendRoCs :: "(rat \<Rightarrow> string) \<Rightarrow> halfMetrics \<Rightarrow> halfMetrics \<Rightarrow> string list list" where
  "trendRoCs ts firstMetrics secondMetrics =
     [[calcRoc ts (tempAvg firstMetrics) (tempAvg secondMetrics),
       calcRoc ts (pressureAvg firstMetrics) (pressureAvg secondMetrics),
       calcRoc ts (vibrationAvg firstMetrics) (vibrationAvg secondMetrics)],
      [calcRoc ts (tempMax firstMetrics) (tempMax secondMetrics),
       calcRoc ts (pressureMax firstMetrics) (pressureMax secondMetrics),
       calcRoc ts (vibrationMax firstMetrics) (vibrationMax secondMetrics)],
      [calcRoc ts (tempMin firstMetrics) (tempMin secondMetrics),
       calcRoc ts (pressureMin firstMetrics) (pressureMin secondMetrics),
       calcRoc ts (vibrationMin firstMetrics) (vibrationMin secondMetrics)]]"

section \<open>The detailed report\<close>

record asset =
  name :: string
  location :: "string option"
  manufacturer :: "string option"
  model :: "string option"

record prediction =
  riskLevel :: string
  probability :: jsnum
  modelVersion :: "string option"

text \<open>
  A \<open>Date\<close> object is its instant; the model keeps the text \<open>toLocaleString()\<close> gives for
  it. \<open>new Date()\<close> reads the clock, so the date the handler makes is an input of the model.
\<close>

record jsdate =
  toLocaleString :: string

text \<open>\<open>s || "N/A"\<close> for a text that may be null: null and the empty text give the default.\<close>

definition orNA :: "string option \<Rightarrow> string" where
  "orNA s = (case s of None \<Rightarrow> ''N/A'' | Some t \<Rightarrow> if t = [] then ''N/A'' else t)"

definition quote :: string where
  "quote = [CHR 0x22]"

definition degree :: string where
  "degree = [CHR 0xC2, CHR 0xB0]"

text \<open>\<open>xs.join(sep)\<close>\<close>

fun join :: "string \<Rightarrow> string list \<Rightarrow> string" where
  "join sep [] = []"
| "join sep [x] = x"
| "join sep (x # y # ys) = x @ sep @ join sep (y # ys)"

text \<open>A line of the report: its fields, each in double quotes, with commas between them.\<close>

definition csvRow :: "string list \<Rightarrow> string" where
  "csvRow fs = join '','' (map (\<lambda>f. quote @ f @ quote) fs)"

definition chunkRow :: "chunk \<Rightarrow> string" where
  "chunkRow chunk =
     csvRow [label chunk, tempMean chunk, tempRoC chunk, pressureMean chunk, pressureRoC chunk,
             vibrationMean chunk, vibrationRoC chunk]"

text \<open>
  The lines \<open>handleExportDetailedReport\<close> pushes, section by section. \<open>readings\<close> is the
  fetched array, newest first, and \<open>chronologicalReadings\<close> the reversed copy;
  \<open>generated\<close> is the date made for the second line. The file name and the download
  through the document are left out.
\<close>

definition headerLines :: "(rat \<Rightarrow> string) \<Rightarrow> jsdate \<Rightarrow> asset \<Rightarrow> reading list \<Rightarrow> jsnum \<Rightarrow> string list" where
  "headerLines ts generated asset readings timeRange =
     [csvRow [''Asset Detailed Report - '' @ name asset],
      csvRow [''Generated: '' @ toLocaleString generated],
      csvRow [''Time Range: '' @ numberToString ts timeRange @ '' hours''],
      csvRow [''Total Readings: '' @ digits (length readings)],
      []]"

definition assetInfoLines :: "(rat \<Rightarrow> string) \<Rightarrow> asset \<Rightarrow> prediction option \<Rightarrow> string list" where
  "assetInfoLines ts asset prediction =
     [csvRow [''ASSET INFORMATION''],
      csvRow [''Type'', name asset],
      csvRow [''Location'', orNA (location asset)],
      csvRow [''Manufacturer'', orNA (manufacturer asset)],
      csvRow [''Model'', orNA (model asset)]]
     @ (case prediction of
          None \<Rightarrow> []
        | Some p \<Rightarrow>
            [csvRow [''Risk Level'', riskLevel p],
             csvRow [''Failure Probability'',
                     toFixed ts 1 (js_mul (probability p) (Fin 100)) @ ''%'']])
     @ [[]]"

definition currentStatusLines :: "(rat \<Rightarrow> string) \<Rightarrow> reading list \<Rightarrow> string list" where
  "currentStatusLines ts readings =
     (if length readings > 0 then
        [csvRow [''CURRENT SENSOR STATUS''],
         csvRow [''Temperature'', numberToString ts (tempF (readings ! 0)) @ degree @ ''F''],
         csvRow [''Pressure'', numberToString ts (pressurePSI (readings ! 0)) @ '' PSI''],
         csvRow [''Vibration'', numberToString ts (vibrationMM (readings ! 0)) @ '' mm''],
         []]
      else [])"

definition trendLines :: "(rat \<Rightarrow> string) \<Rightarrow> reading list \<Rightarrow> string list" where
  "trendLines ts chronologicalReadings =
     (let (firstHalf, secondHalf) = halves chronologicalReadings;
          firstMetrics = calcMetrics ts firstHalf;
          secondMetrics = calcMetrics ts secondHalf;
          rocs = trendRoCs ts firstMetrics secondMetrics
      in [csvRow [''TREND ANALYSIS: FIRST HALF vs SECOND HALF''],
          csvRow [''Metric'', ''Temperature ('' @ degree @ ''F) Change %'',
                  ''Pressure (PSI) Change %'', ''Vibration (mm) Change %''],
          csvRow (''Average'' # map (\<lambda>r. r @ ''%'') (rocs ! 0)),
          csvRow (''Maximum'' # map (\<lambda>r. r @ ''%'') (rocs ! 1)),
          csvRow (''Minimum'' # map (\<lambda>r. r @ ''%'') (rocs ! 2)),
          []])"

definition segmentLines :: "chunk list \<Rightarrow> string list" where
  "segmentLines chunks =
     (if length chunks > 0 then
        [csvRow [''TIME SEGMENT TREND ANALYSIS''],
         csvRow [''Period'', ''Temp Avg ('' @ degree @ ''F)'', ''Temp RoC %'',
                 ''Pressure Avg (PSI)'', ''Pressure RoC %'', ''Vibration Avg (mm)'',
                 ''Vibration RoC %'']]
        @ map chunkRow chunks @ [[]]
      else [])"

definition predictionLines :: "(rat \<Rightarrow> string) \<Rightarrow> prediction option \<Rightarrow> string list" where
  "predictionLines ts prediction =
     (case prediction of
        None \<Rightarrow> []
      | Some p \<Rightarrow>
          [csvRow [''ML PREDICTION''],
           csvRow [''Failure Probability'',
                   toFixed ts 1 (js_mul (probability p) (Fin 100)) @ ''%''],
           csvRow [''Risk Level'', riskLevel p]]
          @ (case modelVersion p of
               None \<Rightarrow> []
             | Some v \<Rightarrow> if v = [] then [] else [csvRow [''Model Version'', v]]))"

definition reportLines ::
  "(rat \<Rightarrow> string) \<Rightarrow> jsdate \<Rightarrow> asset \<Rightarrow> prediction option \<Rightarrow> reading list \<Rightarrow> reading list
     \<Rightarrow> jsnum \<Rightarrow> string list" where
  "reportLines ts generated asset prediction readings chronologicalReadings timeRange =
     (let chunks = calculateChunkedMetrics ts chronologicalReadings timeRange
      in headerLines ts generated asset readings timeRange
         @ assetInfoLines ts asset prediction
         @ currentStatusLines ts readings
         @ trendLines ts chronologicalReadings
         @ segmentLines chunks
         @ predictionLines ts prediction)"

text \<open>\<open>lines.join("\n")\<close>, the text of the downloaded file.\<close>

definition csvContent ::
  "(rat \<Rightarrow> string) \<Rightarrow> jsdate \<Rightarrow> asset \<Rightarrow> prediction option \<Rightarrow> reading list \<Rightarrow> reading list
     \<Rightarrow> jsnum \<Rightarrow> string" where
  "csvContent ts generated asset prediction readings chronologicalReadings timeRange =
     join [CHR 0x0A]
       (reportLines ts generated asset prediction readings chronologicalReadings timeRange)"

section \<open>The time segment view\<close>

record tableRow =
  key :: nat
  cells :: "string list"

record chartPoint =
  period :: string
  avg :: jsnum
  roc :: jsnum

record segmentView =
  intervalsHeading :: string
  tableRows :: "tableRow list"
  temperatureChart :: "chartPoint list"
  pressureChart :: "chartPoint list"
  vibrationChart :: "chartPoint list"

text \<open>
  The time segment section of the detail view, in the order its parts are evaluated. The
  table maps over \<open>chunks\<close> as returned. The temperature chart calls \<open>chunks.reverse()\<close>,
  which reverses the array in place and returns it; the pressure and vibration charts map
  over \<open>chunks\<close> after that, so they read the reversed array. The array variable is
  threaded through as \<open>chunks\<close>, \<open>chunks'\<close>.
\<close>

definition renderSegments :: "(rat \<Rightarrow> string) \<Rightarrow> reading list \<Rightarrow> jsnum \<Rightarrow> segmentView option" where
  "renderSegments ts chronologicalReadings timeRange =
     (let chunks = calculateChunkedMetrics ts chronologicalReadings timeRange
      in if length chunks = 0 then None
         else
           let heading = timeLabel (chunks ! 0) @ '' intervals'';
               rows = map (\<lambda>chunk.
                        \<lparr>key = chunkIndex chunk,
                         cells = [label chunk, tempMean chunk, tempRoC chunk @ ''%'',
                                  pressureMean chunk, pressureRoC chunk @ ''%'',
                                  vibrationMean chunk, vibrationRoC chunk @ ''%'']\<rparr>) chunks;
               chunks' = rev chunks;
               temperature = map (\<lambda>c. \<lparr>period = label c, avg = parseFloat (tempMean c),
                                         roc = parseFloat (tempRoC c)\<rparr>) chunks';
               pressure = map (\<lambda>c. \<lparr>period = label c, avg = parseFloat (pressureMean c),
                                      roc = parseFloat (pressureRoC c)\<rparr>) chunks';
               vibration = map (\<lambda>c. \<lparr>period = label c, avg = parseFloat (vibrationMean c),
                                       roc = parseFloat (vibrationRoC c)\<rparr>) chunks'
           in Some \<lparr>intervalsHeading = heading, tableRows = rows, temperatureChart = temperature,
                    pressureChart = pressure, vibrationChart = vibration\<rparr>)"

section \<open>The fetched array and its chronological copy\<close>

text \<open>
  Arrays are objects: a store maps the address of an array to its elements, and \<open>limit\<close>
  is the first address not yet in use.
\<close>

record 'a store =
  arrays :: "nat \<Rightarrow> 'a list"
  limit :: nat

text \<open>\<open>[...xs]\<close>: a new array with the elements of \<open>xs\<close>.\<close>

definition spread :: "'a store \<Rightarrow> nat \<Rightarrow> 'a store \<times> nat" where
  "spread h xs = (h\<lparr>arrays := (arrays h)(limit h := arrays h xs), limit := Suc (limit h)\<rparr>, limit h)"

text \<open>\<open>xs.reverse()\<close>: reverses the array in place and returns it.\<close>

definition reverse :: "'a store \<Rightarrow> nat \<Rightarrow> 'a store \<times> nat" where
  "reverse h xs = (h\<lparr>arrays := (arrays h)(xs := rev (arrays h xs))\<rparr>, xs)"

text \<open>\<open>const chronologicalReadings = [...readings].reverse()\<close>\<close>

definition chronologicalReadingsOf :: "'a store \<Rightarrow> nat \<Rightarrow> 'a store \<times> nat" where
  "chronologicalReadingsOf h readings =
     (let (h1, copy) = spread h readings
      in reverse h1 copy)"

text \<open>
  The body of \<open>AssetDetail\<close> as far as the report goes: the chronological copy is made,
  then the export handler reads both arrays. The analysis functions call only \<open>length\<close>,
  \<open>slice\<close>, \<open>map\<close> and index reads on the reading arrays, so they take the elements and
  leave the store as it is.
\<close>

definition assetDetailReport ::
  "(rat \<Rightarrow> string) \<Rightarrow> jsdate \<Rightarrow> asset \<Rightarrow> prediction option \<Rightarrow> jsnum \<Rightarrow> reading store \<Rightarrow> nat
     \<Rightarrow> reading store \<times> string list" where
  "assetDetailReport ts generated asset prediction timeRange h readings =
     (let (h', chronologicalReadings) = chronologicalReadingsOf h readings
      in (h', reportLines ts generated asset prediction (arrays h' readings)
                (arrays h' chronologicalReadings) timeRange))"

section \<open>Chunk configuration and chunk count\<close>

lemma chunkConfigOf_cases:
  "chunkConfigOf timeRange =
     (if timeRange = Fin 1 then \<lparr>size_cfg = 15, label_cfg = ''15min''\<rparr>
      else if timeRange = Fin 4 \<or> timeRange = Fin 8 then \<lparr>size_cfg = 60, label_cfg = ''1hr''\<rparr>
      else if timeRange = Fin 12 then \<lparr>size_cfg = 120, label_cfg = ''2hr''\<rparr>
      else if timeRange = Fin 24 then \<lparr>size_cfg = 180, label_cfg = ''3hr''\<rparr>
      else \<lparr>size_cfg = 60, label_cfg = ''1hr''\<rparr>)"
  by (simp add: chunkConfigOf_def chunkSizes_def)

lemma size_cfg_pos: "0 < size_cfg (chunkConfigOf timeRange)"
  by (simp add: chunkConfigOf_cases)

lemma floor_div_60: "nat \<lfloor>rat_of_nat m / 60\<rfloor> = m div 60"
proof -
  have "\<lfloor>rat_of_nat m / rat_of_nat 60\<rfloor> = int (m div 60)"
    by (rule floor_divide_of_nat_eq)
  then show ?thesis by simp
qed

lemma numChunks_upper:
  assumes "0 < c"
  shows "n \<le> nat \<lceil>rat_of_nat n / rat_of_nat c\<rceil> * c"
proof -
  let ?x = "rat_of_nat n / rat_of_nat c"
  have c0: "0 < rat_of_nat c" using assms by simp
  have "0 \<le> ?x" by simp
  then have "- 1 < ?x" by linarith
  then have nonneg: "0 \<le> \<lceil>?x\<rceil>"
    by (simp only: zero_le_ceiling)
  have eq: "rat_of_int \<lceil>?x\<rceil> = rat_of_nat (nat \<lceil>?x\<rceil>)"
    using nonneg by simp
  have "?x \<le> rat_of_int \<lceil>?x\<rceil>"
    by (rule le_of_int_ceiling)
  then have "?x \<le> rat_of_nat (nat \<lceil>?x\<rceil>)" by (simp only: eq)
  then have "rat_of_nat n \<le> rat_of_nat (nat \<lceil>?x\<rceil>) * rat_of_nat c"
    by (simp only: pos_divide_le_eq[OF c0])
  then have "rat_of_nat n \<le> rat_of_nat (nat \<lceil>?x\<rceil> * c)"
    by (simp only: of_nat_mult)
  then show ?thesis by (simp only: of_nat_le_iff)
qed

lemma numChunks_lower:
  assumes "0 < c" and "j < nat \<lceil>rat_of_nat n / rat_of_nat c\<rceil>"
  shows "j * c < n"
proof -
  have c0: "0 < rat_of_nat c" using assms(1) by simp
  have "int j < \<lceil>rat_of_nat n / rat_of_nat c\<rceil>" using assms(2) by linarith
  then have "rat_of_int (int j) < rat_of_nat n / rat_of_nat c"
    by (simp only: less_ceiling_iff)
  then have "rat_of_nat j < rat_of_nat n / rat_of_nat c"
    by (simp only: of_int_of_nat_eq)
  then have "rat_of_nat j * rat_of_nat c < rat_of_nat n"
    by (simp only: pos_less_divide_eq[OF c0])
  then have "rat_of_nat (j * c) < rat_of_nat n"
    by (simp only: of_nat_mult)
  then show ?thesis by (simp only: of_nat_less_iff)
qed

section \<open>The chunk loop\<close>

lemma chunkLoop_eq:
  "chunkLoop ts readings timeRange cfg numChunks i chunks =
     chunks @ map (\<lambda>j. makeChunk ts timeRange cfg numChunks j (chunkReadingsOf readings (size_cfg cfg) j))
                (filter (\<lambda>j. chunkReadingsOf readings (size_cfg cfg) j \<noteq> []) [i..<numChunks])"
proof (induction ts readings timeRange cfg numChunks i chunks rule: chunkLoop.induct)
  case (1 ts readings timeRange cfg numChunks i chunks)
  show ?case
  proof (cases "i < numChunks")
    case True
    then have up: "[i..<numChunks] = i # [Suc i..<numChunks]" by (simp add: upt_conv_Cons)
    show ?thesis
      using True "1.IH"(1)[OF True refl] "1.IH"(2)[OF True refl]
      by (subst chunkLoop.simps) (simp add: up Let_def)
  next
    case False
    then show ?thesis by (subst chunkLoop.simps) simp
  qed
qed

lemma chunkReadingsOf_eq:
  "chunkReadingsOf readings c i = take c (drop (i * c) readings)"
proof (cases "i * c < length readings")
  case True
  then show ?thesis
    by (simp add: chunkReadingsOf_def slice_def Let_def min_def take_all_iff)
next
  case False
  then show ?thesis
    by (simp add: chunkReadingsOf_def slice_def Let_def min_def)
qed

lemma length_chunkReadingsOf:
  "length (chunkReadingsOf readings c i) = min c (length readings - i * c)"
  by (simp add: chunkReadingsOf_eq)

lemma chunkReadingsOf_nonempty:
  assumes "0 < c" and "i < nat \<lceil>rat_of_nat (length readings) / rat_of_nat c\<rceil>"
  shows "chunkReadingsOf readings c i \<noteq> []"
proof -
  have "i * c < length readings" using assms by (rule numChunks_lower)
  then have "0 < length (chunkReadingsOf readings c i)"
    using assms(1) by (simp add: length_chunkReadingsOf)
  then show ?thesis by auto
qed

lemma take_drop_nth:
  "take c (drop s xs) = map (\<lambda>k. xs ! k) [s ..< min (s + c) (length xs)]"
proof (rule nth_equalityI)
  have "min (length xs - s) c = min (s + c) (length xs) - s" by linarith
  then show "length (take c (drop s xs)) = length (map (\<lambda>k. xs ! k) [s ..< min (s + c) (length xs)])"
    by (simp only: length_take length_drop length_map length_upt)
next
  fix i
  assume a: "i < length (take c (drop s xs))"
  have a': "i < min (length xs - s) c" using a by (simp only: length_take length_drop)
  have i1: "i < c" using a' by linarith
  have i2: "s + i < length xs" using a' by linarith
  have lt: "s + i < min (s + c) (length xs)" using i1 i2 by linarith
  have len: "i < length [s ..< min (s + c) (length xs)]" using lt by (simp only: length_upt)
  have "map (\<lambda>k. xs ! k) [s ..< min (s + c) (length xs)] ! i = xs ! ([s ..< min (s + c) (length xs)] ! i)"
    using len by (rule nth_map)
  also have "[s ..< min (s + c) (length xs)] ! i = s + i"
    using lt by (rule nth_upt)
  finally have r: "map (\<lambda>k. xs ! k) [s ..< min (s + c) (length xs)] ! i = xs ! (s + i)" .
  have "take c (drop s xs) ! i = drop s xs ! i" using i1 by (rule nth_take)
  also have "\<dots> = xs ! (s + i)" using i2 by (simp only: nth_drop less_imp_le)
  finally have l: "take c (drop s xs) ! i = xs ! (s + i)" .
  show "take c (drop s xs) ! i = map (\<lambda>k. xs ! k) [s ..< min (s + c) (length xs)] ! i"
    by (simp only: l r)
qed

lemma concat_chunks_take:
  "concat (map (\<lambda>i. take c (drop (i * c) xs)) [0..<N]) = take (N * c) xs"
proof (induction N)
  case 0
  show ?case by simp
next
  case (Suc N)
  have "take (Suc N * c) xs = take (N * c + c) xs" by (simp add: add.commute)
  also have "\<dots> = take (N * c) xs @ take c (drop (N * c) xs)" by (rule take_add)
  finally show ?case using Suc.IH by simp
qed

lemma generatedChunks_map:
  "generatedChunks ts readings timeRange =
     map (\<lambda>i. makeChunk ts timeRange (chunkConfigOf timeRange)
                 (nat \<lceil>rat_of_nat (length readings) / rat_of_nat (size_cfg (chunkConfigOf timeRange))\<rceil>) i
                 (chunkReadingsOf readings (size_cfg (chunkConfigOf timeRange)) i))
         [0..<nat \<lceil>rat_of_nat (length readings) / rat_of_nat (size_cfg (chunkConfigOf timeRange))\<rceil>]"
proof -
  let ?c = "size_cfg (chunkConfigOf timeRange)"
  let ?N = "nat \<lceil>rat_of_nat (length readings) / rat_of_nat ?c\<rceil>"
  have "filter (\<lambda>j. chunkReadingsOf readings ?c j \<noteq> []) [0..<?N] = [0..<?N]"
    using chunkReadingsOf_nonempty[OF size_cfg_pos] by (simp add: filter_id_conv)
  then show ?thesis
    by (simp add: generatedChunks_def Let_def chunkLoop_eq)
qed

lemma generatedChunks_empty: "generatedChunks ts [] timeRange = []"
  by (simp add: generatedChunks_map)

lemma calculateChunkedMetrics_rev:
  "calculateChunkedMetrics ts readings timeRange = rev (generatedChunks ts readings timeRange)"
  by (cases readings) (simp_all add: calculateChunkedMetrics_def generatedChunks_empty)


lemma length_calculateChunkedMetrics:
  "length (calculateChunkedMetrics ts readings timeRange) =
     nat \<lceil>rat_of_nat (length readings) / rat_of_nat (size_cfg (chunkConfigOf timeRange))\<rceil>"
  by (simp only: calculateChunkedMetrics_rev generatedChunks_map length_rev length_map length_upt diff_zero)

section \<open>The chunk-config lookup\<close>

text \<open>
  C7: the lookup is total over all numbers. 1 gives 15-minute chunks labelled 15min, 4 and 8
  give 60-minute chunks labelled 1hr, 12 gives 120-minute chunks labelled 2hr, 24 gives
  180-minute chunks labelled 3hr, and every other number (also NaN, the infinities and the
  negative zero) gives the 60-minute 1hr fallback. 60 readings at selector 1 give 4 chunks,
  and 1440 readings at selector 24 give 8 chunks.
\<close>

theorem chunk_config_lookup_total:
  "chunkConfigOf (Fin 1) = \<lparr>size_cfg = 15, label_cfg = ''15min''\<rparr>
   \<and> chunkConfigOf (Fin 4) = \<lparr>size_cfg = 60, label_cfg = ''1hr''\<rparr>
   \<and> chunkConfigOf (Fin 8) = \<lparr>size_cfg = 60, label_cfg = ''1hr''\<rparr>
   \<and> chunkConfigOf (Fin 12) = \<lparr>size_cfg = 120, label_cfg = ''2hr''\<rparr>
   \<and> chunkConfigOf (Fin 24) = \<lparr>size_cfg = 180, label_cfg = ''3hr''\<rparr>
   \<and> (timeRange \<notin> {Fin 1, Fin 4, Fin 8, Fin 12, Fin 24}
        \<longrightarrow> chunkConfigOf timeRange = \<lparr>size_cfg = 60, label_cfg = ''1hr''\<rparr>)
   \<and> (length readings = 60 \<longrightarrow> length (calculateChunkedMetrics ts readings (Fin 1)) = 4)
   \<and> (length readings' = 1440 \<longrightarrow> length (calculateChunkedMetrics ts readings' (Fin 24)) = 8)"
proof -
  have a: "length readings = 60 \<longrightarrow> length (calculateChunkedMetrics ts readings (Fin 1)) = 4"
    by (simp add: length_calculateChunkedMetrics chunkConfigOf_cases)
  have b: "length readings' = 1440 \<longrightarrow> length (calculateChunkedMetrics ts readings' (Fin 24)) = 8"
    by (simp add: length_calculateChunkedMetrics chunkConfigOf_cases)
  have c: "timeRange \<notin> {Fin 1, Fin 4, Fin 8, Fin 12, Fin 24}
        \<longrightarrow> chunkConfigOf timeRange = \<lparr>size_cfg = 60, label_cfg = ''1hr''\<rparr>"
    by (simp add: chunkConfigOf_cases)
  show ?thesis using a b c by (simp add: chunkConfigOf_cases)
qed

theorem chunk_config_lookup_total_witness:
  "NaN \<notin> {Fin 1, Fin 4, Fin 8, Fin 12, Fin 24}
   \<and> chunkConfigOf NaN = \<lparr>size_cfg = 60, label_cfg = ''1hr''\<rparr>
   \<and> length (replicate 60 \<lparr>tempF = Fin 100, pressurePSI = Fin 30, vibrationMM = Fin 2, timestamp = ''t''\<rparr>) = 60
   \<and> length (calculateChunkedMetrics (\<lambda>q. [])
         (replicate 60 \<lparr>tempF = Fin 100, pressurePSI = Fin 30, vibrationMM = Fin 2, timestamp = ''t''\<rparr>) (Fin 1)) = 4
   \<and> length (replicate 1440 \<lparr>tempF = Fin 100, pressurePSI = Fin 30, vibrationMM = Fin 2, timestamp = ''t''\<rparr>) = 1440
   \<and> length (calculateChunkedMetrics (\<lambda>q. [])
         (replicate 1440 \<lparr>tempF = Fin 100, pressurePSI = Fin 30, vibrationMM = Fin 2, timestamp = ''t''\<rparr>) (Fin 24)) = 8"
  using chunk_config_lookup_total [of NaN
      "replicate 60 \<lparr>tempF = Fin 100, pressurePSI = Fin 30, vibrationMM = Fin 2, timestamp = ''t''\<rparr>"
      "\<lambda>q. []"
      "replicate 1440 \<lparr>tempF = Fin 100, pressurePSI = Fin 30, vibrationMM = Fin 2, timestamp = ''t''\<rparr>"]
  by simp

section \<open>The half-to-half split\<close>

lemma floor_div_2: "nat \<lfloor>rat_of_nat m / 2\<rfloor> = m div 2"
proof -
  have "\<lfloor>rat_of_nat m / rat_of_nat 2\<rfloor> = int (m div 2)"
    by (rule floor_divide_of_nat_eq)
  then show ?thesis by simp
qed

lemma halves_take_drop:
  "halves xs = (take (length xs div 2) xs, drop (length xs div 2) xs)"
  by (simp add: halves_def Let_def floor_div_2 slice_def slice_from_def min_def)

text \<open>
  C4: for every reading sequence of length n the midpoint is floor(n/2), the first half is
  readings[0, midpoint) and the second half readings[midpoint, n); so the first half has
  floor(n/2) readings and the two halves together have n.
\<close>

theorem halves_lengths:
  "nat \<lfloor>rat_of_nat (length readings) / 2\<rfloor> = length readings div 2
   \<and> fst (halves readings) = map (\<lambda>k. readings ! k) [0 ..< length readings div 2]
   \<and> snd (halves readings) = map (\<lambda>k. readings ! k) [length readings div 2 ..< length readings]
   \<and> length (fst (halves readings)) = length readings div 2
   \<and> length (fst (halves readings)) + length (snd (halves readings)) = length readings
   \<and> fst (halves readings) @ snd (halves readings) = readings"
proof -
  let ?m = "length readings div 2"
  have t: "take ?m readings = map (\<lambda>k. readings ! k) [0 ..< ?m]"
    using take_drop_nth [of ?m 0 readings] by (simp add: min_def)
  have d: "drop ?m readings = map (\<lambda>k. readings ! k) [?m ..< length readings]"
    using take_drop_nth [of "length readings" ?m readings] by (simp add: min_def)
  have l: "length (take ?m readings) = ?m" by simp
  show ?thesis
    by (simp only: halves_take_drop fst_conv snd_conv floor_div_2 t [symmetric] d [symmetric] l
        length_drop append_take_drop_id) simp
qed

section \<open>Empty input\<close>

text \<open>
  C8: for an empty reading sequence and any selector the two halves are empty, every
  aggregate of both halves (mean, maximum and minimum of each metric) is the text N/A, every
  rate of change of the trend table is N/A, and the chunk sequence is empty. The functions
  of the model have no error outcome: the source raises nowhere on this path.
\<close>

theorem empty_input:
  "halves ([] :: reading list) = ([], [])
   \<and> calcMetrics ts [] =
       \<lparr>tempAvg = ''N/A'', tempMax = ''N/A'', tempMin = ''N/A'',
        pressureAvg = ''N/A'', pressureMax = ''N/A'', pressureMin = ''N/A'',
        vibrationAvg = ''N/A'', vibrationMax = ''N/A'', vibrationMin = ''N/A''\<rparr>
   \<and> trendRoCs ts (calcMetrics ts (fst (halves []))) (calcMetrics ts (snd (halves []))) =
       [[''N/A'', ''N/A'', ''N/A''], [''N/A'', ''N/A'', ''N/A''], [''N/A'', ''N/A'', ''N/A'']]
   \<and> calculateChunkedMetrics ts [] timeRange = []
   \<and> renderSegments ts [] timeRange = None
   \<and> segmentLines (calculateChunkedMetrics ts [] timeRange) = []"
  by (simp add: halves_take_drop calcMetrics_def trendRoCs_def calcRoc_def
      calculateChunkedMetrics_def renderSegments_def segmentLines_def)

section \<open>Evaluating quotients of numerals\<close>

lemma floor_rat_numeral_div: "\<lfloor>numeral a / numeral b :: rat\<rfloor> = numeral a div numeral b"
  using floor_divide_of_int_eq [of "numeral a" "numeral b", where ?'a = rat] by simp
lemma ceiling_rat_numeral_div: "\<lceil>numeral a / numeral b :: rat\<rceil> = - (- numeral a div numeral b)"
  using ceiling_divide_eq_div [of "numeral a" "numeral b", where ?'a = rat] by simp

section \<open>Chunk count and partition\<close>

lemma chunkReadingsOf_fun:
  "chunkReadingsOf readings c = (\<lambda>i. take c (drop (i * c) readings))"
  by (rule ext) (rule chunkReadingsOf_eq)

lemma chunkReadingsOf_nth:
  "chunkReadingsOf readings c i =
     map (\<lambda>k. readings ! k) [i * c ..< min ((i + 1) * c) (length readings)]"
proof -
  have "(i + 1) * c = i * c + c" by simp
  then show ?thesis
    by (simp only: chunkReadingsOf_eq take_drop_nth)
qed

lemma concat_chunkReadingsOf:
  assumes "0 < c"
  shows "concat (map (chunkReadingsOf readings c) [0..<nat \<lceil>rat_of_nat (length readings) / rat_of_nat c\<rceil>])
         = readings"
proof -
  let ?N = "nat \<lceil>rat_of_nat (length readings) / rat_of_nat c\<rceil>"
  have "length readings \<le> ?N * c" using assms by (rule numChunks_upper)
  then have "take (?N * c) readings = readings" by simp
  then show ?thesis
    by (simp only: chunkReadingsOf_fun concat_chunks_take)
qed

text \<open>
  C2: for a non-empty reading sequence of length n and the chunk size c of the selector,
  the operation returns ceil(n / c) chunks; chunk i is built from the slice
  readings[i*c, min((i+1)*c, n)); the slices in order make up the input, their lengths sum
  to n, every slice but the last has c readings, and the last has between 1 and c.
\<close>

theorem chunking_partition:
  fixes readings :: "reading list" and timeRange :: jsnum
  defines "c \<equiv> size_cfg (chunkConfigOf timeRange)"
  defines "N \<equiv> nat \<lceil>rat_of_nat (length readings) / rat_of_nat (size_cfg (chunkConfigOf timeRange))\<rceil>"
  assumes nonempty: "readings \<noteq> []"
  shows "length (calculateChunkedMetrics ts readings timeRange) = N
    \<and> calculateChunkedMetrics ts readings timeRange =
        rev (map (\<lambda>i. makeChunk ts timeRange (chunkConfigOf timeRange) N i (chunkReadingsOf readings c i)) [0..<N])
    \<and> concat (map (chunkReadingsOf readings c) [0..<N]) = readings
    \<and> sum_list (map (\<lambda>i. length (chunkReadingsOf readings c i)) [0..<N]) = length readings
    \<and> (\<forall>i. i + 1 < N \<longrightarrow> length (chunkReadingsOf readings c i) = c)
    \<and> 0 < length (chunkReadingsOf readings c (N - 1))
    \<and> length (chunkReadingsOf readings c (N - 1)) \<le> c
    \<and> (\<forall>i < N. chunkReadingsOf readings c i =
          map (\<lambda>k. readings ! k) [i * c ..< min ((i + 1) * c) (length readings)])"
proof -
  have cpos: "0 < c" unfolding c_def by (rule size_cfg_pos)
  have N_eq: "N = nat \<lceil>rat_of_nat (length readings) / rat_of_nat c\<rceil>"
    by (simp only: N_def c_def)
  have len: "length (calculateChunkedMetrics ts readings timeRange) = N"
    by (simp only: length_calculateChunkedMetrics N_def)
  have form: "calculateChunkedMetrics ts readings timeRange =
        rev (map (\<lambda>i. makeChunk ts timeRange (chunkConfigOf timeRange) N i (chunkReadingsOf readings c i)) [0..<N])"
    by (simp only: calculateChunkedMetrics_rev generatedChunks_map c_def N_def)
  have cc: "concat (map (chunkReadingsOf readings c) [0..<N]) = readings"
    unfolding N_eq using cpos by (rule concat_chunkReadingsOf)
  have "sum_list (map length (map (chunkReadingsOf readings c) [0..<N])) = length readings"
    using cc by (simp only: length_concat [symmetric])
  then have total: "sum_list (map (\<lambda>i. length (chunkReadingsOf readings c i)) [0..<N]) = length readings"
    by (simp only: map_map comp_def)
  have full: "\<forall>i. i + 1 < N \<longrightarrow> length (chunkReadingsOf readings c i) = c"
  proof (intro allI impI)
    fix i
    assume "i + 1 < N"
    then have "(i + 1) * c < length readings"
      unfolding N_eq using cpos numChunks_lower by blast
    then have "c \<le> length readings - i * c" by simp
    then show "length (chunkReadingsOf readings c i) = c"
      by (simp only: length_chunkReadingsOf min_absorb1)
  qed
  have "0 < length readings" using nonempty by simp
  moreover have "length readings \<le> N * c"
    unfolding N_eq using cpos by (rule numChunks_upper)
  ultimately have "0 < N" by (cases N) simp_all
  then have "N - 1 < N" by simp
  then have "chunkReadingsOf readings c (N - 1) \<noteq> []"
    unfolding N_eq using cpos chunkReadingsOf_nonempty by blast
  then have last_pos: "0 < length (chunkReadingsOf readings c (N - 1))" by simp
  have last_le: "length (chunkReadingsOf readings c (N - 1)) \<le> c"
    by (simp only: length_chunkReadingsOf min.cobounded1)
  have cover: "\<forall>i < N. chunkReadingsOf readings c i =
          map (\<lambda>k. readings ! k) [i * c ..< min ((i + 1) * c) (length readings)]"
    using chunkReadingsOf_nth by blast
  show ?thesis
    using len form cc total full last_pos last_le cover by blast
qed

theorem chunking_partition_witness:
  "[\<lparr>tempF = Fin 100, pressurePSI = Fin 30, vibrationMM = Fin 2, timestamp = ''t0''\<rparr>,
    \<lparr>tempF = Fin 110, pressurePSI = Fin 33, vibrationMM = Fin 1, timestamp = ''t1''\<rparr>] \<noteq> []
   \<and> length (calculateChunkedMetrics (\<lambda>q. [])
        [\<lparr>tempF = Fin 100, pressurePSI = Fin 30, vibrationMM = Fin 2, timestamp = ''t0''\<rparr>,
         \<lparr>tempF = Fin 110, pressurePSI = Fin 33, vibrationMM = Fin 1, timestamp = ''t1''\<rparr>] (Fin 1)) = 1
   \<and> length (chunkReadingsOf
        [\<lparr>tempF = Fin 100, pressurePSI = Fin 30, vibrationMM = Fin 2, timestamp = ''t0''\<rparr>,
         \<lparr>tempF = Fin 110, pressurePSI = Fin 33, vibrationMM = Fin 1, timestamp = ''t1''\<rparr>] 15 0) = 2"
proof -
  let ?rs = "[\<lparr>tempF = Fin 100, pressurePSI = Fin 30, vibrationMM = Fin 2, timestamp = ''t0''\<rparr>,
              \<lparr>tempF = Fin 110, pressurePSI = Fin 33, vibrationMM = Fin 1, timestamp = ''t1''\<rparr>]"
  have h: "?rs \<noteq> []" by simp
  have N: "nat \<lceil>rat_of_nat (length ?rs) / rat_of_nat (size_cfg (chunkConfigOf (Fin 1)))\<rceil> = 1"
    by (simp add: chunkConfigOf_cases ceiling_rat_numeral_div)
  note t = chunking_partition [OF h, of "\<lambda>q. []" "Fin 1"]
  have "length (calculateChunkedMetrics (\<lambda>q. []) ?rs (Fin 1)) = 1"
    by (rule trans [OF t [THEN conjunct1] N])
  moreover have "length (chunkReadingsOf ?rs 15 0) = 2"
    using t [THEN conjunct2, THEN conjunct2, THEN conjunct2, THEN conjunct1]
    by (simp add: chunkConfigOf_cases ceiling_rat_numeral_div)
  ultimately show ?thesis using h by blast
qed

section \<open>Output ordering\<close>

lemma chunkIndex_makeChunk:
  "chunkIndex (makeChunk ts timeRange cfg numChunks i chunkReadings) = i"
  by (simp add: makeChunk_def Let_def)

lemma label_makeChunk:
  "label (makeChunk ts timeRange cfg numChunks i chunkReadings) = periodLabel timeRange cfg numChunks i"
  by (simp add: makeChunk_def Let_def)

lemma map_chunkIndex_generatedChunks:
  "map chunkIndex (generatedChunks ts readings timeRange) =
     [0..<nat \<lceil>rat_of_nat (length readings) / rat_of_nat (size_cfg (chunkConfigOf timeRange))\<rceil>]"
  by (simp add: generatedChunks_map comp_def chunkIndex_makeChunk del: upt_Suc)

lemma map_label_generatedChunks:
  "map label (generatedChunks ts readings timeRange) =
     map (periodLabel timeRange (chunkConfigOf timeRange)
            (nat \<lceil>rat_of_nat (length readings) / rat_of_nat (size_cfg (chunkConfigOf timeRange))\<rceil>))
       [0..<nat \<lceil>rat_of_nat (length readings) / rat_of_nat (size_cfg (chunkConfigOf timeRange))\<rceil>]"
  by (simp add: generatedChunks_map comp_def label_makeChunk del: upt_Suc)

lemma length_generatedChunks:
  "length (generatedChunks ts readings timeRange) =
     nat \<lceil>rat_of_nat (length readings) / rat_of_nat (size_cfg (chunkConfigOf timeRange))\<rceil>"
  by (simp only: generatedChunks_map length_map length_upt diff_zero)

lemma rev_nth_0: "xs \<noteq> [] \<Longrightarrow> rev xs ! 0 = last xs"
  by (simp add: rev_nth last_conv_nth)

lemma renderSegments_generated:
  "renderSegments ts readings timeRange =
     (if generatedChunks ts readings timeRange = [] then None
      else Some
        \<lparr>intervalsHeading = timeLabel (last (generatedChunks ts readings timeRange)) @ '' intervals'',
         tableRows = map (\<lambda>chunk.
                        \<lparr>key = chunkIndex chunk,
                         cells = [label chunk, tempMean chunk, tempRoC chunk @ ''%'',
                                  pressureMean chunk, pressureRoC chunk @ ''%'',
                                  vibrationMean chunk, vibrationRoC chunk @ ''%'']\<rparr>)
                      (rev (generatedChunks ts readings timeRange)),
         temperatureChart = map (\<lambda>c. \<lparr>period = label c, avg = parseFloat (tempMean c),
                                         roc = parseFloat (tempRoC c)\<rparr>)
                              (generatedChunks ts readings timeRange),
         pressureChart = map (\<lambda>c. \<lparr>period = label c, avg = parseFloat (pressureMean c),
                                      roc = parseFloat (pressureRoC c)\<rparr>)
                           (generatedChunks ts readings timeRange),
         vibrationChart = map (\<lambda>c. \<lparr>period = label c, avg = parseFloat (vibrationMean c),
                                       roc = parseFloat (vibrationRoC c)\<rparr>)
                            (generatedChunks ts readings timeRange)\<rparr>)"
  by (simp add: renderSegments_def Let_def calculateChunkedMetrics_rev rev_nth_0)

text \<open>
  C3: for every input the loop generates the chunks oldest first, chunk i from the i-th
  slice of the readings with chunkIndex i, and the function returns that sequence
  reversed, so reversing the result gives the generation order back. The export writes
  its rows and the table its rows in the returned order (indices descending); the three
  charts plot the generation order (indices ascending), because the temperature chart
  reverses the array in place before the charts read it.
\<close>

theorem chunk_output_ordering:
  fixes readings :: "reading list" and timeRange :: jsnum
  defines "c \<equiv> size_cfg (chunkConfigOf timeRange)"
  defines "N \<equiv> nat \<lceil>rat_of_nat (length readings) / rat_of_nat (size_cfg (chunkConfigOf timeRange))\<rceil>"
  shows "generatedChunks ts readings timeRange =
           map (\<lambda>i. makeChunk ts timeRange (chunkConfigOf timeRange) N i (chunkReadingsOf readings c i)) [0..<N]
    \<and> map chunkIndex (generatedChunks ts readings timeRange) = [0..<N]
    \<and> calculateChunkedMetrics ts readings timeRange = rev (generatedChunks ts readings timeRange)
    \<and> rev (calculateChunkedMetrics ts readings timeRange) = generatedChunks ts readings timeRange
    \<and> map chunkIndex (calculateChunkedMetrics ts readings timeRange) = rev [0..<N]
    \<and> drop 2 (segmentLines (calculateChunkedMetrics ts readings timeRange)) =
          (if N = 0 then [] else map chunkRow (rev (generatedChunks ts readings timeRange)) @ [[]])
    \<and> (case renderSegments ts readings timeRange of
          None \<Rightarrow> N = 0
        | Some v \<Rightarrow>
            map key (tableRows v) = rev [0..<N]
            \<and> map period (temperatureChart v) = map (periodLabel timeRange (chunkConfigOf timeRange) N) [0..<N]
            \<and> map period (pressureChart v) = map (periodLabel timeRange (chunkConfigOf timeRange) N) [0..<N]
            \<and> map period (vibrationChart v) = map (periodLabel timeRange (chunkConfigOf timeRange) N) [0..<N]
            \<and> map avg (temperatureChart v) =
                  map (\<lambda>c. parseFloat (tempMean c)) (generatedChunks ts readings timeRange))"
proof -
  let ?g = "generatedChunks ts readings timeRange"
  have g: "?g = map (\<lambda>i. makeChunk ts timeRange (chunkConfigOf timeRange) N i (chunkReadingsOf readings c i)) [0..<N]"
    by (simp only: generatedChunks_map c_def N_def)
  have idx: "map chunkIndex ?g = [0..<N]"
    by (simp only: map_chunkIndex_generatedChunks N_def)
  have lbl: "map label ?g = map (periodLabel timeRange (chunkConfigOf timeRange) N) [0..<N]"
    by (simp only: map_label_generatedChunks N_def)
  have len: "length ?g = N"
    by (simp only: length_generatedChunks N_def)
  have r: "calculateChunkedMetrics ts readings timeRange = rev ?g"
    by (rule calculateChunkedMetrics_rev)
  have rr: "rev (calculateChunkedMetrics ts readings timeRange) = ?g"
    by (simp only: r rev_rev_ident)
  have ridx: "map chunkIndex (calculateChunkedMetrics ts readings timeRange) = rev [0..<N]"
    by (simp only: r rev_map idx [symmetric])
  have e: "(?g = []) = (N = 0)" using len by auto
  have seg: "drop 2 (segmentLines (calculateChunkedMetrics ts readings timeRange)) =
          (if N = 0 then [] else map chunkRow (rev ?g) @ [[]])"
    using e by (simp add: segmentLines_def r)
  have view: "(case renderSegments ts readings timeRange of
          None \<Rightarrow> N = 0
        | Some v \<Rightarrow>
            map key (tableRows v) = rev [0..<N]
            \<and> map period (temperatureChart v) = map (periodLabel timeRange (chunkConfigOf timeRange) N) [0..<N]
            \<and> map period (pressureChart v) = map (periodLabel timeRange (chunkConfigOf timeRange) N) [0..<N]
            \<and> map period (vibrationChart v) = map (periodLabel timeRange (chunkConfigOf timeRange) N) [0..<N]
            \<and> map avg (temperatureChart v) = map (\<lambda>c. parseFloat (tempMean c)) ?g)"
  proof (cases "?g = []")
    case True
    then show ?thesis using e by (simp add: renderSegments_generated)
  next
    case False
    have k: "map (\<lambda>chunk. chunkIndex chunk) (rev ?g) = rev [0..<N]"
      by (simp only: rev_map idx [symmetric])
    have p: "map (\<lambda>c. label c) ?g = map (periodLabel timeRange (chunkConfigOf timeRange) N) [0..<N]"
      by (rule lbl)
    show ?thesis
      using False k p by (simp add: renderSegments_generated comp_def del: upt_Suc)
  qed
  show ?thesis
    using g idx r rr ridx seg view by blast
qed

section \<open>Period labels at the one-hour selector\<close>

lemma periodLabel_last:
  assumes "(numChunks - i - 1) * size_cfg cfg < 60"
  shows "periodLabel timeRange cfg numChunks i = ''Last '' @ label_cfg cfg"
proof -
  have "((numChunks - i - 1) * size_cfg cfg) div 60 = 0" using assms by simp
  then have z: "nat \<lfloor>rat_of_nat ((numChunks - i - 1) * size_cfg cfg) / 60\<rfloor> = 0"
    by (simp only: floor_div_60)
  show ?thesis
    unfolding periodLabel_def Let_def z by simp
qed

text \<open>
  C9: at selector 1 and with at most 60 readings every chunk is labelled Last 15min: there
  are at most four chunks, so hoursAgoEnd is 0 for each and the minutes-ago branch is not
  taken.
\<close>

theorem one_hour_labels:
  assumes "length readings \<le> 60"
  shows "\<forall>ch \<in> set (calculateChunkedMetrics ts readings (Fin 1)). label ch = ''Last 15min''"
proof -
  let ?N = "nat \<lceil>rat_of_nat (length readings) / rat_of_nat 15\<rceil>"
  have cfg: "chunkConfigOf (Fin 1) = \<lparr>size_cfg = 15, label_cfg = ''15min''\<rparr>"
    by (simp add: chunkConfigOf_cases)
  have small: "i < ?N \<Longrightarrow> (?N - i - 1) * 15 < 60" for i
  proof -
    assume i: "i < ?N"
    have "(?N - 1) * 15 < length readings"
      by (rule numChunks_lower) (use i in simp_all)
    then have "(?N - 1) * 15 < 60" using assms by linarith
    then show ?thesis by simp
  qed
  have "label ch = ''Last 15min''" if "ch \<in> set (generatedChunks ts readings (Fin 1))" for ch
  proof -
    from that obtain i where i: "i < ?N"
      and ch: "ch = makeChunk ts (Fin 1) (chunkConfigOf (Fin 1)) ?N i (chunkReadingsOf readings 15 i)"
      by (auto simp: generatedChunks_map cfg)
    have "periodLabel (Fin 1) (chunkConfigOf (Fin 1)) ?N i = ''Last '' @ label_cfg (chunkConfigOf (Fin 1))"
      by (rule periodLabel_last) (use small [OF i] in \<open>simp add: cfg\<close>)
    then show ?thesis by (simp add: ch cfg label_makeChunk)
  qed
  then show ?thesis
    by (simp add: calculateChunkedMetrics_rev)
qed

theorem one_hour_labels_witness:
  "length [\<lparr>tempF = Fin 100, pressurePSI = Fin 30, vibrationMM = Fin 2, timestamp = ''t0''\<rparr>,
           \<lparr>tempF = Fin 110, pressurePSI = Fin 33, vibrationMM = Fin 1, timestamp = ''t1''\<rparr>] \<le> 60
   \<and> map label (calculateChunkedMetrics (\<lambda>q. [])
         [\<lparr>tempF = Fin 100, pressurePSI = Fin 30, vibrationMM = Fin 2, timestamp = ''t0''\<rparr>,
          \<lparr>tempF = Fin 110, pressurePSI = Fin 33, vibrationMM = Fin 1, timestamp = ''t1''\<rparr>] (Fin 1))
       = [''Last 15min'']"
proof -
  let ?rs = "[\<lparr>tempF = Fin 100, pressurePSI = Fin 30, vibrationMM = Fin 2, timestamp = ''t0''\<rparr>,
              \<lparr>tempF = Fin 110, pressurePSI = Fin 33, vibrationMM = Fin 1, timestamp = ''t1''\<rparr>]"
  let ?out = "calculateChunkedMetrics (\<lambda>q. []) ?rs (Fin 1)"
  have h: "length ?rs \<le> 60" by simp
  have "length ?out = 1"
    by (simp add: length_calculateChunkedMetrics chunkConfigOf_cases ceiling_rat_numeral_div)
  then obtain ch where out: "?out = [ch]"
    by (cases ?out) simp_all
  have "label ch = ''Last 15min''"
    using one_hour_labels [OF h, of "\<lambda>q. []"] by (simp add: out)
  then show ?thesis using h by (simp add: out)
qed

text \<open>With 61 readings the oldest of the five chunks takes the minutes-ago branch.\<close>

lemma minutes_label_beyond_budget:
  "length readings = 61 \<Longrightarrow>
   label (last (calculateChunkedMetrics ts readings (Fin 1))) = ''75-60 mins ago''"
proof -
  assume n: "length readings = 61"
  have N: "nat \<lceil>rat_of_nat (length readings) / rat_of_nat (size_cfg (chunkConfigOf (Fin 1)))\<rceil> = 5"
    by (simp add: n chunkConfigOf_cases ceiling_rat_numeral_div)
  have "last (calculateChunkedMetrics ts readings (Fin 1)) = hd (generatedChunks ts readings (Fin 1))"
    by (simp add: calculateChunkedMetrics_rev last_rev)
  also have "\<dots> = makeChunk ts (Fin 1) (chunkConfigOf (Fin 1)) 5 0
                      (chunkReadingsOf readings (size_cfg (chunkConfigOf (Fin 1))) 0)"
    by (simp add: generatedChunks_map N upt_conv_Cons del: upt_Suc)
  finally show ?thesis
    by (simp add: label_makeChunk periodLabel_def chunkConfigOf_cases floor_rat_numeral_div
        digits.simps digit_char_def char_of_eq_iff)
qed

section \<open>The fetched array is left as it was\<close>

lemma chronologicalReadingsOf_eq:
  "chronologicalReadingsOf h readings =
     (h\<lparr>arrays := (arrays h)(limit h := rev (arrays h readings)), limit := Suc (limit h)\<rparr>, limit h)"
  by (simp add: chronologicalReadingsOf_def spread_def reverse_def)

text \<open>
  C10: the reversal to chronological order works on a copy. After it the fetched array
  holds what it held, in the same newest-first order, no array that existed before has
  changed, and the chronological array is a new one holding the reversed elements. The
  report is therefore built from the fetched array as it was, and its current-status
  lines show element 0 of it, the newest reading.
\<close>

theorem fetched_readings_unchanged:
  assumes "readings < limit h"
  shows "(case chronologicalReadingsOf h readings of
            (h', chronologicalReadings) \<Rightarrow>
              arrays h' readings = arrays h readings
              \<and> (\<forall>a < limit h. arrays h' a = arrays h a)
              \<and> chronologicalReadings \<noteq> readings
              \<and> arrays h' chronologicalReadings = rev (arrays h readings)
              \<and> arrays h' readings ! 0 = arrays h readings ! 0)
    \<and> arrays (fst (assetDetailReport ts generated asset prediction timeRange h readings)) readings
          = arrays h readings
    \<and> snd (assetDetailReport ts generated asset prediction timeRange h readings)
          = reportLines ts generated asset prediction (arrays h readings) (rev (arrays h readings)) timeRange
    \<and> currentStatusLines ts (arrays h readings) =
          (if arrays h readings = [] then []
           else [csvRow [''CURRENT SENSOR STATUS''],
                 csvRow [''Temperature'', numberToString ts (tempF (hd (arrays h readings))) @ degree @ ''F''],
                 csvRow [''Pressure'', numberToString ts (pressurePSI (hd (arrays h readings))) @ '' PSI''],
                 csvRow [''Vibration'', numberToString ts (vibrationMM (hd (arrays h readings))) @ '' mm''],
                 []])"
proof -
  have ne: "limit h \<noteq> readings" using assms by simp
  have a: "(case chronologicalReadingsOf h readings of
            (h', chronologicalReadings) \<Rightarrow>
              arrays h' readings = arrays h readings
              \<and> (\<forall>a < limit h. arrays h' a = arrays h a)
              \<and> chronologicalReadings \<noteq> readings
              \<and> arrays h' chronologicalReadings = rev (arrays h readings)
              \<and> arrays h' readings ! 0 = arrays h readings ! 0)"
    using ne by (simp add: chronologicalReadingsOf_eq)
  have b: "arrays (fst (assetDetailReport ts generated asset prediction timeRange h readings)) readings
          = arrays h readings"
    using ne by (simp add: assetDetailReport_def chronologicalReadingsOf_eq)
  have c: "snd (assetDetailReport ts generated asset prediction timeRange h readings)
          = reportLines ts generated asset prediction (arrays h readings) (rev (arrays h readings)) timeRange"
    using ne by (simp add: assetDetailReport_def chronologicalReadingsOf_eq)
  have d: "currentStatusLines ts (arrays h readings) =
          (if arrays h readings = [] then []
           else [csvRow [''CURRENT SENSOR STATUS''],
                 csvRow [''Temperature'', numberToString ts (tempF (hd (arrays h readings))) @ degree @ ''F''],
                 csvRow [''Pressure'', numberToString ts (pressurePSI (hd (arrays h readings))) @ '' PSI''],
                 csvRow [''Vibration'', numberToString ts (vibrationMM (hd (arrays h readings))) @ '' mm''],
                 []])"
    by (cases "arrays h readings") (simp_all add: currentStatusLines_def)
  show ?thesis using a b c d by blast
qed

theorem fetched_readings_unchanged_witness:
  "(0::nat) < limit \<lparr>arrays = (\<lambda>a. if a = 0
        then [\<lparr>tempF = Fin 110, pressurePSI = Fin 33, vibrationMM = Fin 1, timestamp = ''t1''\<rparr>,
              \<lparr>tempF = Fin 100, pressurePSI = Fin 30, vibrationMM = Fin 2, timestamp = ''t0''\<rparr>]
        else []), limit = 1\<rparr>
   \<and> arrays (fst (chronologicalReadingsOf \<lparr>arrays = (\<lambda>a. if a = 0
        then [\<lparr>tempF = Fin 110, pressurePSI = Fin 33, vibrationMM = Fin 1, timestamp = ''t1''\<rparr>,
              \<lparr>tempF = Fin 100, pressurePSI = Fin 30, vibrationMM = Fin 2, timestamp = ''t0''\<rparr>]
        else []), limit = 1\<rparr> 0)) 0
       = [\<lparr>tempF = Fin 110, pressurePSI = Fin 33, vibrationMM = Fin 1, timestamp = ''t1''\<rparr>,
          \<lparr>tempF = Fin 100, pressurePSI = Fin 30, vibrationMM = Fin 2, timestamp = ''t0''\<rparr>]
   \<and> arrays (fst (chronologicalReadingsOf \<lparr>arrays = (\<lambda>a. if a = 0
        then [\<lparr>tempF = Fin 110, pressurePSI = Fin 33, vibrationMM = Fin 1, timestamp = ''t1''\<rparr>,
              \<lparr>tempF = Fin 100, pressurePSI = Fin 30, vibrationMM = Fin 2, timestamp = ''t0''\<rparr>]
        else []), limit = 1\<rparr> 0)) 1
       = [\<lparr>tempF = Fin 100, pressurePSI = Fin 30, vibrationMM = Fin 2, timestamp = ''t0''\<rparr>,
          \<lparr>tempF = Fin 110, pressurePSI = Fin 33, vibrationMM = Fin 1, timestamp = ''t1''\<rparr>]"
proof -
  let ?h = "\<lparr>arrays = (\<lambda>a. if a = 0
        then [\<lparr>tempF = Fin 110, pressurePSI = Fin 33, vibrationMM = Fin 1, timestamp = ''t1''\<rparr>,
              \<lparr>tempF = Fin 100, pressurePSI = Fin 30, vibrationMM = Fin 2, timestamp = ''t0''\<rparr>]
        else []), limit = (1::nat)\<rparr>"
  have h: "(0::nat) < limit ?h" by simp
  have s: "snd (chronologicalReadingsOf ?h 0) = 1"
    by (simp add: chronologicalReadingsOf_eq)
  note t = fetched_readings_unchanged [OF h, THEN conjunct1]
  from t have "arrays (fst (chronologicalReadingsOf ?h 0)) 0 = arrays ?h 0"
    by (simp add: case_prod_beta)
  moreover from t have "arrays (fst (chronologicalReadingsOf ?h 0)) (snd (chronologicalReadingsOf ?h 0))
      = rev (arrays ?h 0)"
    by (simp add: case_prod_beta)
  ultimately show ?thesis using h s by simp
qed

section \<open>The report and the clock\<close>

lemma reportLines_split:
  "reportLines ts generated asset prediction readings chronologicalReadings timeRange =
     csvRow [''Asset Detailed Report - '' @ name asset]
     # csvRow [''Generated: '' @ toLocaleString generated]
     # csvRow [''Time Range: '' @ numberToString ts timeRange @ '' hours'']
     # csvRow [''Total Readings: '' @ digits (length readings)]
     # []
     # (assetInfoLines ts asset prediction
        @ currentStatusLines ts readings
        @ trendLines ts chronologicalReadings
        @ segmentLines (calculateChunkedMetrics ts chronologicalReadings timeRange)
        @ predictionLines ts prediction)"
  by (simp add: reportLines_def headerLines_def Let_def)

text \<open>
  C6, as the code has it: the half-to-half metrics and the chunk sequence are functions of
  the readings and the selector alone, and so is every line of the report but the second;
  the second line is the text Generated: followed by the local date and time at which the
  handler runs. Two reports of the same input agree once that line is set aside.
\<close>

theorem report_same_but_generated_line:
  "(reportLines ts generated1 asset prediction readings chronologicalReadings timeRange) [1 := line]
     = (reportLines ts generated2 asset prediction readings chronologicalReadings timeRange) [1 := line]
   \<and> reportLines ts generated1 asset prediction readings chronologicalReadings timeRange ! 1
     = csvRow [''Generated: '' @ toLocaleString generated1]
   \<and> length (reportLines ts generated1 asset prediction readings chronologicalReadings timeRange)
     = length (reportLines ts generated2 asset prediction readings chronologicalReadings timeRange)
   \<and> drop 5 (reportLines ts generated1 asset prediction readings chronologicalReadings timeRange)
     = assetInfoLines ts asset prediction
       @ currentStatusLines ts readings
       @ trendLines ts chronologicalReadings
       @ segmentLines (calculateChunkedMetrics ts chronologicalReadings timeRange)
       @ predictionLines ts prediction"
  by (simp add: reportLines_split)

text \<open>
  The claim as stated fails: the same empty input and selector, exported at two different
  seconds, give two different report texts.
\<close>

theorem report_depends_on_clock:
  "csvContent (\<lambda>q. ''1'') \<lparr>toLocaleString = ''11/3/2026, 10:00:00 AM''\<rparr>
       \<lparr>name = ''Pump A'', location = None, manufacturer = None, model = None\<rparr> None [] [] (Fin 1)
   \<noteq> csvContent (\<lambda>q. ''1'') \<lparr>toLocaleString = ''11/3/2026, 10:00:01 AM''\<rparr>
       \<lparr>name = ''Pump A'', location = None, manufacturer = None, model = None\<rparr> None [] [] (Fin 1)"
  by (simp add: csvContent_def reportLines_split csvRow_def quote_def)

section \<open>Decimal digits and their value\<close>

lemma digit_char_0: "digit_char 0 = CHR ''0''"
  by (simp add: digit_char_def char_of_eq_iff)

lemma of_char_digit_char: "d < 10 \<Longrightarrow> (of_char (digit_char d) :: nat) = 48 + d"
  by (simp add: digit_char_def)

lemma isDigit_digit_char: "d < 10 \<Longrightarrow> isDigit (digit_char d)"
  by (simp add: isDigit_def of_char_digit_char)

lemma digitVal_digit_char: "d < 10 \<Longrightarrow> digitVal (digit_char d) = d"
  by (simp add: digitVal_def of_char_digit_char)

lemma digits_small: "n < 10 \<Longrightarrow> digits n = [digit_char n]"
  by (subst digits.simps) simp

lemma digits_step: "10 \<le> n \<Longrightarrow> digits n = digits (n div 10) @ [digit_char (n mod 10)]"
  by (subst digits.simps) simp

lemma digits_all_isDigit: "c \<in> set (digits n) \<Longrightarrow> isDigit c"
proof (induction n arbitrary: c rule: digits.induct)
  case (1 n)
  show ?case
  proof (cases "n < 10")
    case True
    then show ?thesis using "1.prems" by (auto simp: digits_small isDigit_digit_char)
  next
    case False
    then have "digits n = digits (n div 10) @ [digit_char (n mod 10)]"
      by (simp add: digits_step)
    then show ?thesis
      using "1.prems" "1.IH" [OF False] by (auto simp: isDigit_digit_char)
  qed
qed

lemma digits_nonempty: "digits n \<noteq> []"
  by (cases "n < 10") (simp_all add: digits_small digits_step)

lemma digitsVal_snoc: "digitsVal (s @ [c]) = 10 * digitsVal s + digitVal c"
  by (simp add: digitsVal_def)

lemma digitsVal_digits: "digitsVal (digits n) = n"
proof (induction n rule: digits.induct)
  case (1 n)
  show ?case
  proof (cases "n < 10")
    case True
    then show ?thesis by (simp add: digits_small digitsVal_def digitVal_digit_char)
  next
    case False
    then have "digits n = digits (n div 10) @ [digit_char (n mod 10)]"
      by (simp add: digits_step)
    then show ?thesis
      using "1.IH" [OF False] by (simp add: digitsVal_snoc digitVal_digit_char)
  qed
qed

lemma isDigit_not_special:
  assumes "isDigit c"
  shows "\<not> isStrWhiteSpaceChar c" and "c \<noteq> CHR ''-''" and "c \<noteq> CHR ''+''" and "c \<noteq> CHR ''I''"
    and "c \<noteq> CHR ''.''"
  using assms by (auto simp: isDigit_def isStrWhiteSpaceChar_def)

section \<open>The text of toFixed(2)\<close>

text \<open>
  Below \<open>10^21\<close> the text of \<open>toFixed(2)\<close> is the sign, the digits of the hundredths
  \<open>n\<close> without their last two, a point, and the last two digits of \<open>n\<close>.
\<close>

lemma fixed2_layout:
  "(let m = digits n;
        k = length m;
        m = (if k \<le> 2 then replicate (2 + 1 - k) (CHR ''0'') @ m else m);
        k = (if k \<le> 2 then 2 + 1 else k)
    in take (k - 2) m @ ''.'' @ drop (k - 2) m)
   = digits (n div 100) @ ''.'' @ [digit_char (n div 10 mod 10), digit_char (n mod 10)]"
proof -
  consider "n < 10" | "10 \<le> n" "n < 100" | "100 \<le> n" by linarith
  then show ?thesis
  proof cases
    case 1
    then show ?thesis
      by (simp add: digits_small digit_char_0 numeral_2_eq_2 numeral_3_eq_3)
  next
    case 2
    then have "n div 10 < 10" by simp
    then have "digits n = [digit_char (n div 10), digit_char (n mod 10)]"
      using 2 by (simp add: digits_step digits_small)
    then show ?thesis
      using 2 by (simp add: digits_small digit_char_0)
  next
    case 3
    then have a: "10 \<le> n" and b: "10 \<le> n div 10" by simp_all
    have c: "n div 10 div 10 = n div 100" by (simp add: div_mult2_eq)
    have "digits n = digits (n div 100) @ [digit_char (n div 10 mod 10), digit_char (n mod 10)]"
      using digits_step [OF a] digits_step [OF b] by (simp add: c)
    then show ?thesis by (simp add: digits_nonempty)
  qed
qed

lemma toFixed2_Fin:
  assumes "\<bar>q\<bar> < 10 ^ 21"
  shows "toFixed ts 2 (Fin q) =
           (if q < 0 then ''-'' else '''')
           @ digits (nat \<lfloor>\<bar>q\<bar> * 100 + 1 / 2\<rfloor> div 100) @ ''.''
           @ [digit_char (nat \<lfloor>\<bar>q\<bar> * 100 + 1 / 2\<rfloor> div 10 mod 10),
              digit_char (nat \<lfloor>\<bar>q\<bar> * 100 + 1 / 2\<rfloor> mod 10)]"
proof -
  have nb: "\<not> 10 ^ 21 \<le> \<bar>q\<bar>" using assms by simp
  have "toFixed ts 2 (Fin q) =
          (if q < 0 then ''-'' else '''')
          @ (let m = digits (nat \<lfloor>\<bar>q\<bar> * 100 + 1 / 2\<rfloor>);
                 k = length m;
                 m = (if k \<le> 2 then replicate (2 + 1 - k) (CHR ''0'') @ m else m);
                 k = (if k \<le> 2 then 2 + 1 else k)
             in take (k - 2) m @ ''.'' @ drop (k - 2) m)"
    unfolding toFixed_def Let_def using nb by simp
  then show ?thesis by (simp only: fixed2_layout)
qed

lemma toFixed_zero_s: "toFixed ts fd (zero_s neg) = toFixed ts fd (Fin 0)"
  by (simp add: toFixed_def zero_s_def)

section \<open>Rounding to binary64\<close>

lemma bit_len_bounds:
  assumes "0 < n"
  shows "\<exists>k. bit_len n = Suc k \<and> 2 ^ k \<le> n \<and> n < 2 ^ Suc k"
  using assms
proof (induction n rule: bit_len.induct)
  case (1 n)
  have b: "bit_len n = Suc (bit_len (n div 2))"
    using 1(2) by (subst bit_len.simps) simp
  show ?case
  proof (cases "n div 2 = 0")
    case True
    then have "n = 1" using 1(2) by (simp add: div_eq_0_iff)
    moreover have "bit_len 0 = 0" by (simp add: bit_len.simps)
    ultimately show ?thesis using b by simp
  next
    case False
    then obtain k where k: "bit_len (n div 2) = Suc k" "2 ^ k \<le> n div 2" "n div 2 < 2 ^ Suc k"
      using 1 by auto
    have "2 * (n div 2) \<le> n" "n < 2 * (n div 2) + 2" by presburger+
    then have "2 ^ Suc k \<le> n \<and> n < 2 ^ Suc (Suc k)" using k(2,3) by simp
    then show ?thesis using b k(1) by simp
  qed
qed

lemma ilog2_bounds:
  assumes "0 < x"
  shows "2 powi ilog2 x \<le> x \<and> x < 2 powi (ilog2 x + 1)"
proof (cases "1 \<le> x")
  case True
  define n where "n = nat \<lfloor>x\<rfloor>"
  have f1: "1 \<le> \<lfloor>x\<rfloor>" using True by (simp add: le_floor_iff)
  then have n0: "0 < n" by (simp add: n_def)
  have nf: "rat_of_nat n = of_int \<lfloor>x\<rfloor>" using f1 by (simp add: n_def)
  have lo: "rat_of_nat n \<le> x" unfolding nf by (rule of_int_floor_le)
  have hi: "x < rat_of_nat n + 1" unfolding nf by linarith
  obtain k where k: "bit_len n = Suc k" "2 ^ k \<le> n" "n < 2 ^ Suc k"
    using bit_len_bounds [OF n0] by auto
  have e: "ilog2 x = int k" using True k(1) by (simp add: ilog2_def n_def)
  have "rat_of_nat (2 ^ k) \<le> rat_of_nat n" using k(2) by (simp only: of_nat_le_iff)
  then have "2 ^ k \<le> rat_of_nat n" by (simp only: of_nat_power of_nat_numeral)
  then have a: "2 ^ k \<le> x" using lo by linarith
  have "n + 1 \<le> 2 ^ Suc k" using k(3) by simp
  then have "rat_of_nat (n + 1) \<le> rat_of_nat (2 ^ Suc k)" by (simp only: of_nat_le_iff)
  then have "rat_of_nat n + 1 \<le> 2 ^ Suc k"
    by (simp only: of_nat_add of_nat_1 of_nat_power of_nat_numeral)
  then have b: "x < 2 ^ Suc k" using hi by linarith
  have p: "int k + 1 = int (Suc k)" by simp
  show ?thesis unfolding e p power_int_of_nat using a b by (rule conjI)
next
  case False
  define y where "y = 1 / x"
  have y1: "1 < y" using False assms by (simp add: y_def)
  define c where "c = \<lceil>y\<rceil>"
  have c2: "2 \<le> c" using y1 by (simp add: c_def)
  define n where "n = nat (c - 1)"
  have n0: "0 < n" using c2 by (simp add: n_def)
  have nf: "rat_of_nat n = of_int c - 1" using c2 by (simp add: n_def)
  have lo: "rat_of_nat n < y" unfolding nf c_def by linarith
  have hi: "y \<le> rat_of_nat n + 1" unfolding nf c_def by linarith
  obtain k where k: "bit_len n = Suc k" "2 ^ k \<le> n" "n < 2 ^ Suc k"
    using bit_len_bounds [OF n0] by auto
  have e: "ilog2 x = - int (Suc k)"
    using False k(1) by (simp add: ilog2_def n_def c_def y_def)
  have "rat_of_nat (2 ^ k) \<le> rat_of_nat n" using k(2) by (simp only: of_nat_le_iff)
  then have "2 ^ k \<le> rat_of_nat n" by (simp only: of_nat_power of_nat_numeral)
  then have a: "2 ^ k < y" using lo by linarith
  have "n + 1 \<le> 2 ^ Suc k" using k(3) by simp
  then have "rat_of_nat (n + 1) \<le> rat_of_nat (2 ^ Suc k)" by (simp only: of_nat_le_iff)
  then have "rat_of_nat n + 1 \<le> 2 ^ Suc k"
    by (simp only: of_nat_add of_nat_1 of_nat_power of_nat_numeral)
  then have b: "y \<le> 2 ^ Suc k" using hi by linarith
  have xa: "x < 1 / 2 ^ k" using a assms by (simp add: y_def field_simps)
  have xb: "1 / 2 ^ Suc k \<le> x" using b assms by (simp add: y_def field_simps)
  have p1: "(2::rat) powi (- int (Suc k)) = 1 / 2 ^ Suc k"
    by (simp only: power_int_minus_divide power_int_of_nat)
  have "- int (Suc k) + 1 = - int k" by simp
  then have p2: "(2::rat) powi (- int (Suc k) + 1) = 1 / 2 ^ k"
    by (simp only: power_int_minus_divide power_int_of_nat)
  show ?thesis unfolding e p1 p2 using xb xa by (rule conjI)
qed

lemma powi_less_imp_less:
  assumes "(2::rat) powi m < 2 powi n"
  shows "m < n"
proof (rule ccontr)
  assume "\<not> m < n"
  then have "n \<le> m" by simp
  then have "(2::rat) powi n \<le> 2 powi m" by (rule power_int_increasing) simp
  then show False using assms by simp
qed

lemma ilog2_unique:
  assumes "2 powi e \<le> x" and "x < 2 powi (e + 1)"
  shows "ilog2 x = e"
proof -
  have "(0::rat) < 2 powi e" by simp
  then have x: "0 < x" using assms(1) by linarith
  note b = ilog2_bounds [OF x]
  have "(2::rat) powi e < 2 powi (ilog2 x + 1)" using assms(1) b by linarith
  then have 1: "e < ilog2 x + 1" by (rule powi_less_imp_less)
  have "(2::rat) powi ilog2 x < 2 powi (e + 1)" using assms(2) b by linarith
  then have 2: "ilog2 x < e + 1" by (rule powi_less_imp_less)
  show ?thesis using 1 2 by simp
qed

lemma round_half_even_error: "\<bar>rat_of_int (round_half_even y) - y\<bar> \<le> 1 / 2"
proof -
  have "rat_of_int \<lfloor>y\<rfloor> \<le> y" "y < rat_of_int \<lfloor>y\<rfloor> + 1" by linarith+
  then show ?thesis by (auto simp: round_half_even_def Let_def)
qed

lemma round_half_even_nearest:
  assumes "rat_of_int m - 1 / 2 < y" and "y < rat_of_int m + 1 / 2"
  shows "round_half_even y = m"
proof (cases "rat_of_int m \<le> y")
  case True
  then have "\<lfloor>y\<rfloor> = m" using assms(2) by (simp add: floor_eq_iff)
  then show ?thesis using assms(2) by (simp add: round_half_even_def Let_def)
next
  case False
  then have "\<lfloor>y\<rfloor> = m - 1" using assms(1) by (simp add: floor_eq_iff)
  then show ?thesis using assms(1) False by (simp add: round_half_even_def Let_def)
qed

lemma round_half_even_of_int: "round_half_even (rat_of_int k) = k"
  by (rule round_half_even_nearest) simp_all

lemma round_half_even_ge:
  assumes "rat_of_int N \<le> y"
  shows "N \<le> round_half_even y"
proof -
  have "rat_of_int N - 1 < rat_of_int (round_half_even y)"
    using round_half_even_error [of y] assms by linarith
  then have "rat_of_int (N - 1) < rat_of_int (round_half_even y)" by simp
  then have "N - 1 < round_half_even y" by (simp only: of_int_less_iff)
  then show ?thesis by simp
qed

lemma round64_nonzero:
  assumes "x \<noteq> 0"
  shows "round64 x =
          (if 2 ^ 1024 \<le> rat_of_int (round_half_even (\<bar>x\<bar> / 2 powi max (ilog2 \<bar>x\<bar> - 52) (- 1074)))
                            * 2 powi max (ilog2 \<bar>x\<bar> - 52) (- 1074)
           then inf_s (x < 0)
           else if round_half_even (\<bar>x\<bar> / 2 powi max (ilog2 \<bar>x\<bar> - 52) (- 1074)) = 0
           then zero_s (x < 0)
           else Fin (if x < 0
                     then - (rat_of_int (round_half_even (\<bar>x\<bar> / 2 powi max (ilog2 \<bar>x\<bar> - 52) (- 1074)))
                             * 2 powi max (ilog2 \<bar>x\<bar> - 52) (- 1074))
                     else rat_of_int (round_half_even (\<bar>x\<bar> / 2 powi max (ilog2 \<bar>x\<bar> - 52) (- 1074)))
                             * 2 powi max (ilog2 \<bar>x\<bar> - 52) (- 1074)))"
  unfolding round64_def Let_def using assms by (simp only: if_False)

text \<open>
  Rounding changes a number of magnitude \<open>2^1023\<close> at most by half the spacing of the
  binary64 numbers around it at most, and does not overflow.
\<close>

lemma round64_error_spacing:
  assumes "x \<noteq> 0" and "\<bar>x\<bar> \<le> 2 ^ 1023"
  shows "is_finite (round64 x)
       \<and> \<bar>rat_of (round64 x) - x\<bar> \<le> 2 powi max (ilog2 \<bar>x\<bar> - 52) (- 1074) / 2"
proof -
  define a where "a = \<bar>x\<bar>"
  define q where "q = max (ilog2 a - 52) (- 1074)"
  define P where "P = (2::rat) powi q"
  define m where "m = round_half_even (a / P)"
  define v where "v = rat_of_int m * P"
  define T where "T = (2::rat) ^ 1023"
  have a0: "0 < a" using assms(1) by (simp add: a_def)
  have P0: "0 < P" by (simp add: P_def)
  have aT: "a \<le> T" using assms(2) by (simp only: a_def T_def)
  have T2: "(2::rat) ^ 1024 = 2 * T" unfolding T_def by simp
  have T0: "0 < T" unfolding T_def by simp
  have yP: "a / P * P = a" using P0 by simp
  have "v - a = (rat_of_int m - a / P) * P"
    unfolding v_def by (simp only: left_diff_distrib yP)
  then have "\<bar>v - a\<bar> = \<bar>rat_of_int m - a / P\<bar> * P"
    using P0 by (simp add: abs_mult)
  moreover have "\<bar>rat_of_int m - a / P\<bar> * P \<le> 1 / 2 * P"
    using round_half_even_error [of "a / P"] P0 unfolding m_def
    by (intro mult_right_mono) simp_all
  ultimately have err: "\<bar>v - a\<bar> \<le> P / 2" by simp
  have "rat_of_int 0 \<le> a / P" using a0 P0 by simp
  then have "0 \<le> m" unfolding m_def by (rule round_half_even_ge)
  then have v0: "0 \<le> v" using P0 by (simp add: v_def)
  have PT: "P \<le> T"
  proof (cases "ilog2 a - 52 \<le> - 1074")
    case True
    then have "q = - 1074" by (simp add: q_def)
    then have "P = 2 powi (- 1074)" by (simp only: P_def)
    also have "\<dots> \<le> 2 powi 0" by (rule power_int_increasing) simp_all
    finally have "P \<le> 1" by simp
    moreover have "1 \<le> T" unfolding T_def by (rule one_le_power) simp
    ultimately show ?thesis by linarith
  next
    case False
    then have "q = ilog2 a - 52" by (simp add: q_def)
    then have "P = 2 powi (ilog2 a - 52)" by (simp only: P_def)
    also have "\<dots> \<le> 2 powi ilog2 a" by (rule power_int_increasing) simp_all
    also have "\<dots> \<le> a" using ilog2_bounds [OF a0] by simp
    finally show ?thesis using aT by linarith
  qed
  have vlt: "\<not> 2 ^ 1024 \<le> v" unfolding T2 using err PT aT T0 by linarith
  have r: "round64 x = (if m = 0 then zero_s (x < 0) else Fin (if x < 0 then - v else v))"
    using vlt unfolding v_def m_def P_def q_def a_def
    by (simp only: round64_nonzero [OF assms(1)] if_False)
  have m0: "v = 0" if "m = 0" using that by (simp add: v_def)
  have fin: "is_finite (round64 x)"
    unfolding r by (simp add: is_finite_def zero_s_def)
  have val: "rat_of (round64 x) = (if x < 0 then - v else v)"
    unfolding r using m0 by (simp add: zero_s_def)
  have "\<bar>rat_of (round64 x) - x\<bar> = \<bar>v - a\<bar>"
    unfolding val a_def by (simp add: abs_if)
  then have "\<bar>rat_of (round64 x) - x\<bar> \<le> P / 2" using err by simp
  then show ?thesis using fin unfolding P_def q_def a_def by simp
qed

lemma round64_error:
  assumes "\<bar>x\<bar> \<le> 2 ^ 1023"
  shows "is_finite (round64 x)"
    and "\<bar>rat_of (round64 x) - x\<bar> \<le> \<bar>x\<bar> / 2 ^ 53 + 1 / 2 ^ 1075"
proof -
  have "is_finite (round64 x) \<and> \<bar>rat_of (round64 x) - x\<bar> \<le> \<bar>x\<bar> / 2 ^ 53 + 1 / 2 ^ 1075"
  proof (cases "x = 0")
    case True
    then show ?thesis by (simp add: round64_def is_finite_def)
  next
    case False
    define a where "a = \<bar>x\<bar>"
    have a0: "0 < a" using False by (simp add: a_def)
    note s = round64_error_spacing [OF False assms, folded a_def]
    have "2 powi max (ilog2 a - 52) (- 1074) / 2 \<le> a / 2 ^ 53 + 1 / 2 ^ 1075"
    proof (cases "ilog2 a - 52 \<le> - 1074")
      case True
      then have "max (ilog2 a - 52) (- 1074) = - 1074" by simp
      then have "(2::rat) powi max (ilog2 a - 52) (- 1074) / 2 = 2 powi (- 1074) / 2"
        by (simp only:)
      also have "\<dots> = 1 / 2 ^ 1075" by (simp add: power_int_minus_divide)
      finally show ?thesis using a0 by simp
    next
      case False
      then have "max (ilog2 a - 52) (- 1074) = ilog2 a - 52" by simp
      then have "(2::rat) powi max (ilog2 a - 52) (- 1074) / 2 = 2 powi (ilog2 a - 52) / 2"
        by (simp only:)
      also have "\<dots> = 2 powi ilog2 a / 2 ^ 53" by (simp add: power_int_diff)
      also have "\<dots> \<le> a / 2 ^ 53"
        using ilog2_bounds [OF a0] by (intro divide_right_mono) simp_all
      finally show ?thesis by simp
    qed
    then show ?thesis using s unfolding a_def by linarith
  qed
  then show "is_finite (round64 x)"
    and "\<bar>rat_of (round64 x) - x\<bar> \<le> \<bar>x\<bar> / 2 ^ 53 + 1 / 2 ^ 1075" by simp_all
qed

text \<open>In the range of the normal numbers the error is relative.\<close>

lemma round64_error_normal:
  assumes "2 powi (- 1022) \<le> \<bar>x\<bar>" and "\<bar>x\<bar> \<le> 2 ^ 1023"
  shows "\<bar>rat_of (round64 x) - x\<bar> \<le> \<bar>x\<bar> / 2 ^ 53"
proof -
  define a where "a = \<bar>x\<bar>"
  have "(0::rat) < 2 powi (- 1022)" by simp
  then have a0: "0 < a" using assms(1) unfolding a_def by linarith
  then have nz: "x \<noteq> 0" by (auto simp: a_def)
  note s = round64_error_spacing [OF nz assms(2), folded a_def]
  have "(2::rat) powi (- 1022) < 2 powi (ilog2 a + 1)"
    using ilog2_bounds [OF a0] assms(1) unfolding a_def by linarith
  then have "- 1022 < ilog2 a + 1" by (rule powi_less_imp_less)
  then have "max (ilog2 a - 52) (- 1074) = ilog2 a - 52" by simp
  then have "(2::rat) powi max (ilog2 a - 52) (- 1074) / 2 = 2 powi (ilog2 a - 52) / 2"
    by (simp only:)
  also have "\<dots> = 2 powi ilog2 a / 2 ^ 53" by (simp add: power_int_diff)
  also have "\<dots> \<le> a / 2 ^ 53"
    using ilog2_bounds [OF a0] by (intro divide_right_mono) simp_all
  finally show ?thesis using s unfolding a_def by linarith
qed

text \<open>A number with a significand of 53 binary digits is a binary64 number: it is not rounded.\<close>

lemma round64_dyadic:
  assumes x: "x = rat_of_int n * 2 powi q"
    and n: "n \<noteq> 0" "\<bar>n\<bar> < 2 ^ 53" and q: "- 1074 \<le> q" "q \<le> 970"
  shows "round64 x = Fin x"
proof -
  define a where "a = \<bar>x\<bar>"
  define q' where "q' = max (ilog2 a - 52) (- 1074)"
  define d where "d = nat (q - q')"
  have ax: "a = rat_of_int \<bar>n\<bar> * 2 powi q"
    unfolding a_def x by (simp add: abs_mult)
  have n1: "1 \<le> \<bar>n\<bar>" using n(1) by simp
  have a0: "0 < a" unfolding ax using n(1) by simp
  then have nz: "x \<noteq> 0" by (auto simp: a_def)
  have "rat_of_int \<bar>n\<bar> < rat_of_int (2 ^ 53)" using n(2) by (simp only: of_int_less_iff)
  then have n53: "rat_of_int \<bar>n\<bar> < 2 ^ 53" by simp
  have "a < 2 ^ 53 * 2 powi q"
    unfolding ax using n53 by (intro mult_strict_right_mono) simp_all
  also have "\<dots> = 2 powi (53 + q)" by (simp add: power_int_add)
  finally have alt: "a < 2 powi (53 + q)" .
  have "(2::rat) powi ilog2 a < 2 powi (53 + q)"
    using ilog2_bounds [OF a0] alt by linarith
  then have "ilog2 a < 53 + q" by (rule powi_less_imp_less)
  then have qq: "q' \<le> q" using q(1) by (simp add: q'_def)
  then have dq: "q = q' + int d" by (simp add: d_def)
  have pq: "(2::rat) powi q = 2 powi q' * 2 ^ d"
    unfolding dq by (simp add: power_int_add)
  have y: "a / 2 powi q' = rat_of_int (\<bar>n\<bar> * 2 ^ d)"
    unfolding ax pq by simp
  have m: "round_half_even (a / 2 powi q') = \<bar>n\<bar> * 2 ^ d"
    unfolding y by (rule round_half_even_of_int)
  have v: "rat_of_int (\<bar>n\<bar> * 2 ^ d) * 2 powi q' = a"
    unfolding ax pq by simp
  have "a < 2 powi (53 + q)" by (rule alt)
  also have "\<dots> \<le> 2 powi 1024" using q(2) by (intro power_int_increasing) simp_all
  finally have small: "\<not> 2 ^ 1024 \<le> a" by simp
  have mnz: "\<bar>n\<bar> * 2 ^ d \<noteq> 0" using n(1) by simp
  have "round64 x = Fin (if x < 0 then - a else a)"
    using small mnz
    by (simp only: round64_nonzero [OF nz] a_def [symmetric] q'_def [symmetric] m v if_False)
  then show ?thesis by (simp add: a_def abs_if)
qed

lemma round64_int:
  assumes "\<bar>n\<bar> < 2 ^ 53"
  shows "round64 (rat_of_int n) = Fin (rat_of_int n)"
proof (cases "n = 0")
  case True
  then show ?thesis by (simp add: round64_def)
next
  case False
  show ?thesis
    by (rule round64_dyadic [where n = n and q = 0]) (use False assms in simp_all)
qed

text \<open>
  The value of a positive number that is rounded in earnest, from its significand \<open>m\<close>:
  the integer nearest to \<open>x * 2^k\<close>, which lies between \<open>2^52\<close> and \<open>2^53\<close>.
\<close>

lemma round64_significand:
  assumes r: "2 ^ 52 \<le> x * 2 ^ k" "x * 2 ^ k < 2 ^ 53" and k: "k \<le> 1074"
    and m: "rat_of_int m - 1 / 2 < x * 2 ^ k" "x * 2 ^ k < rat_of_int m + 1 / 2"
  shows "round64 x = Fin (rat_of_int m / 2 ^ k)"
proof -
  define K where "K = (2::rat) ^ k"
  have K0: "0 < K" by (simp add: K_def)
  have "0 < x * K" using r(1) unfolding K_def by (rule less_le_trans [rotated]) simp
  then have x0: "0 < x" using K0 by (simp add: zero_less_mult_iff)
  then have ax: "\<bar>x\<bar> = x" by simp
  have p1: "(2::rat) powi (52 - int k) = 2 ^ 52 / K"
    unfolding K_def by (simp add: power_int_diff)
  have p2: "(2::rat) powi (52 - int k + 1) = 2 ^ 53 / K"
  proof -
    have "52 - int k + 1 = 53 - int k" by simp
    then show ?thesis unfolding K_def by (simp add: power_int_diff)
  qed
  have lo: "2 powi (52 - int k) \<le> x"
    unfolding p1 using r(1) K0 by (simp add: K_def pos_divide_le_eq)
  have hi: "x < 2 powi (52 - int k + 1)"
    unfolding p2 using r(2) K0 by (simp add: K_def pos_less_divide_eq)
  have e: "ilog2 x = 52 - int k" using lo hi by (rule ilog2_unique)
  have q: "max (ilog2 x - 52) (- 1074) = - int k" using k by (simp add: e)
  have p3: "(2::rat) powi (- int k) = 1 / K"
    unfolding K_def by (simp add: power_int_minus_divide)
  have y: "x / (1 / K) = x * K" by simp
  have rm: "round_half_even (x * K) = m"
    using m unfolding K_def by (rule round_half_even_nearest)
  have "rat_of_int (2 ^ 52) - 1 < rat_of_int m" using r(1) m(2) by simp
  then have "rat_of_int (2 ^ 52 - 1) < rat_of_int m" by simp
  then have mlo: "2 ^ 52 - 1 < m" by (simp only: of_int_less_iff)
  then have mnz: "m \<noteq> 0" by auto
  have "rat_of_int m < rat_of_int (2 ^ 53) + 1" using r(2) m(1) by simp
  then have "rat_of_int m < rat_of_int (2 ^ 53 + 1)" by simp
  then have "m < 2 ^ 53 + 1" by (simp only: of_int_less_iff)
  then have "m \<le> 2 ^ 53" by simp
  then have "rat_of_int m \<le> rat_of_int (2 ^ 53)" by (simp only: of_int_le_iff)
  then have mhi: "rat_of_int m \<le> 2 ^ 53" by simp
  have "1 \<le> K" unfolding K_def by (rule one_le_power) simp
  then have "rat_of_int m * (1 / K) \<le> rat_of_int m" using mlo by (simp add: field_simps)
  then have small: "\<not> 2 ^ 1024 \<le> rat_of_int m * (1 / K)" using mhi by simp
  have "round64 x = Fin (rat_of_int m * (1 / K))"
    using small mnz x0
    by (simp only: round64_nonzero [OF less_imp_neq [OF x0, symmetric]] ax q p3 y rm if_False
        not_less_iff_gr_or_eq) simp
  then show ?thesis by (simp add: K_def)
qed
section \<open>The arithmetic on finite numbers\<close>

lemma finite_cases:
  assumes "is_finite x"
  obtains q where "x = Fin q" | "x = NegZero"
  using assms by (cases x) (simp_all add: is_finite_def)

lemma toFixed_nonfinite:
  "toFixed ts fd NaN = ''NaN''" "toFixed ts fd PosInf = ''Infinity''" "toFixed ts fd NegInf = ''-Infinity''"
  by (simp_all add: toFixed_def numberToString_def)

lemma toFixed_finite:
  assumes "is_finite x"
  shows "toFixed ts fd x = toFixed ts fd (Fin (rat_of x))"
  using assms by (cases x rule: finite_cases) (simp_all add: toFixed_def)

text \<open>
  On finite numbers each operation returns the exact result rounded, or the exact result
  itself; so its error is that of rounding at most.
\<close>

lemma js_sub_approx:
  assumes "is_finite a" and "is_finite b" and "\<bar>rat_of a - rat_of b\<bar> \<le> 2 ^ 1023"
  shows "is_finite (js_sub a b)"
    and "\<bar>rat_of (js_sub a b) - (rat_of a - rat_of b)\<bar>
           \<le> \<bar>rat_of a - rat_of b\<bar> / 2 ^ 53 + 1 / 2 ^ 1075"
proof -
  define D where "D = rat_of a - rat_of b"
  from assms(1) have a: "(\<exists>x. a = Fin x) \<or> a = NegZero"
    by (cases a rule: finite_cases) auto
  from assms(2) have b: "(\<exists>y. b = Fin y) \<or> b = NegZero"
    by (cases b rule: finite_cases) auto
  from a b have c: "js_sub a b = round64 D \<or> (is_finite (js_sub a b) \<and> rat_of (js_sub a b) = D)"
    unfolding D_def by (auto simp: js_sub_def is_finite_def split: if_splits)
  have r: "is_finite (round64 D)" "\<bar>rat_of (round64 D) - D\<bar> \<le> \<bar>D\<bar> / 2 ^ 53 + 1 / 2 ^ 1075"
    using assms(3) unfolding D_def by (rule round64_error)+
  have nn: "0 \<le> \<bar>D\<bar> / 2 ^ 53 + 1 / 2 ^ 1075" by simp
  from c r(1) show "is_finite (js_sub a b)" by auto
  from c have "\<bar>rat_of (js_sub a b) - D\<bar> \<le> \<bar>D\<bar> / 2 ^ 53 + 1 / 2 ^ 1075"
  proof
    assume "js_sub a b = round64 D"
    then show ?thesis using r(2) by (simp only:)
  next
    assume "is_finite (js_sub a b) \<and> rat_of (js_sub a b) = D"
    then have "rat_of (js_sub a b) - D = 0" by simp
    then show ?thesis using nn by (simp only: abs_zero)
  qed
  then show "\<bar>rat_of (js_sub a b) - (rat_of a - rat_of b)\<bar>
           \<le> \<bar>rat_of a - rat_of b\<bar> / 2 ^ 53 + 1 / 2 ^ 1075"
    unfolding D_def .
qed

lemma js_div_approx:
  assumes "is_finite a" and "is_finite b" and "rat_of b \<noteq> 0"
    and "\<bar>rat_of a / rat_of b\<bar> \<le> 2 ^ 1023"
  shows "is_finite (js_div a b)"
    and "\<bar>rat_of (js_div a b) - rat_of a / rat_of b\<bar>
           \<le> \<bar>rat_of a / rat_of b\<bar> / 2 ^ 53 + 1 / 2 ^ 1075"
proof -
  define D where "D = rat_of a / rat_of b"
  from assms(1) have a: "(\<exists>x. a = Fin x) \<or> a = NegZero"
    by (cases a rule: finite_cases) auto
  from assms(2,3) have b: "\<exists>y. b = Fin y \<and> y \<noteq> 0"
    by (cases b rule: finite_cases) auto
  from a b have c: "js_div a b = round64 D \<or> (is_finite (js_div a b) \<and> rat_of (js_div a b) = D)"
    unfolding D_def by (auto simp: js_div_def is_finite_def zero_s_def split: if_splits)
  have r: "is_finite (round64 D)" "\<bar>rat_of (round64 D) - D\<bar> \<le> \<bar>D\<bar> / 2 ^ 53 + 1 / 2 ^ 1075"
    using assms(4) unfolding D_def by (rule round64_error)+
  have nn: "0 \<le> \<bar>D\<bar> / 2 ^ 53 + 1 / 2 ^ 1075" by simp
  from c r(1) show "is_finite (js_div a b)" by auto
  from c have "\<bar>rat_of (js_div a b) - D\<bar> \<le> \<bar>D\<bar> / 2 ^ 53 + 1 / 2 ^ 1075"
  proof
    assume "js_div a b = round64 D"
    then show ?thesis using r(2) by (simp only:)
  next
    assume "is_finite (js_div a b) \<and> rat_of (js_div a b) = D"
    then have "rat_of (js_div a b) - D = 0" by simp
    then show ?thesis using nn by (simp only: abs_zero)
  qed
  then show "\<bar>rat_of (js_div a b) - rat_of a / rat_of b\<bar>
           \<le> \<bar>rat_of a / rat_of b\<bar> / 2 ^ 53 + 1 / 2 ^ 1075"
    unfolding D_def .
qed

lemma js_mul_approx:
  assumes "is_finite a" and "is_finite b" and "\<bar>rat_of a * rat_of b\<bar> \<le> 2 ^ 1023"
  shows "is_finite (js_mul a b)"
    and "\<bar>rat_of (js_mul a b) - rat_of a * rat_of b\<bar>
           \<le> \<bar>rat_of a * rat_of b\<bar> / 2 ^ 53 + 1 / 2 ^ 1075"
proof -
  define D where "D = rat_of a * rat_of b"
  from assms(1) have a: "(\<exists>x. a = Fin x) \<or> a = NegZero"
    by (cases a rule: finite_cases) auto
  from assms(2) have b: "(\<exists>y. b = Fin y) \<or> b = NegZero"
    by (cases b rule: finite_cases) auto
  from a b have c: "js_mul a b = round64 D \<or> (is_finite (js_mul a b) \<and> rat_of (js_mul a b) = D)"
    unfolding D_def by (auto simp: js_mul_def is_finite_def zero_s_def split: if_splits)
  have r: "is_finite (round64 D)" "\<bar>rat_of (round64 D) - D\<bar> \<le> \<bar>D\<bar> / 2 ^ 53 + 1 / 2 ^ 1075"
    using assms(3) unfolding D_def by (rule round64_error)+
  have nn: "0 \<le> \<bar>D\<bar> / 2 ^ 53 + 1 / 2 ^ 1075" by simp
  from c r(1) show "is_finite (js_mul a b)" by auto
  from c have "\<bar>rat_of (js_mul a b) - D\<bar> \<le> \<bar>D\<bar> / 2 ^ 53 + 1 / 2 ^ 1075"
  proof
    assume "js_mul a b = round64 D"
    then show ?thesis using r(2) by (simp only:)
  next
    assume "is_finite (js_mul a b) \<and> rat_of (js_mul a b) = D"
    then have "rat_of (js_mul a b) - D = 0" by simp
    then show ?thesis using nn by (simp only: abs_zero)
  qed
  then show "\<bar>rat_of (js_mul a b) - rat_of a * rat_of b\<bar>
           \<le> \<bar>rat_of a * rat_of b\<bar> / 2 ^ 53 + 1 / 2 ^ 1075"
    unfolding D_def .
qed

section \<open>The rate of change between two numbers\<close>

lemma finite_zero:
  assumes "is_finite x" and "rat_of x = 0"
  shows "is_zero x"
  using assms by (cases x rule: finite_cases) auto

lemma js_div_by_zero:
  assumes "is_zero first"
  shows "js_div x first \<in> {NaN, PosInf, NegInf}"
  using assms by (simp add: js_div_def inf_s_def)

lemma js_mul_nonfinite:
  "js_mul NaN (Fin 100) = NaN" "js_mul PosInf (Fin 100) = PosInf" "js_mul NegInf (Fin 100) = NegInf"
  by (simp_all add: js_mul_def inf_s_def)

text \<open>A first value that is zero gives no number: the quotient is infinite or undefined.\<close>

lemma roc_zero_first:
  assumes "is_zero first"
  shows "toFixed ts 2 (js_mul (js_div (js_sub second first) first) (Fin 100))
           \<in> {''NaN'', ''Infinity'', ''-Infinity''}"
proof -
  have "js_div (js_sub second first) first \<in> {NaN, PosInf, NegInf}"
    using assms by (rule js_div_by_zero)
  then have "js_mul (js_div (js_sub second first) first) (Fin 100) \<in> {NaN, PosInf, NegInf}"
    by (auto simp: js_mul_nonfinite)
  then show ?thesis
    by (auto simp: toFixed_nonfinite)
qed

text \<open>
  Otherwise the three roundings of \<open>((second - first) / first) * 100\<close> leave the result
  within a relative distance of \<open>2^-51\<close> of the exact quotient, for numbers of moderate size
  (the other term of the bound, for results below the normal numbers, is far below every
  number that two decimals show).
\<close>

lemma roc_error_sum:
  fixes A V X Y Z W h eta T E :: rat
  assumes "V \<le> A / 2 ^ 53 + h" and "X \<le> A + V" and "Y \<le> X / 2 ^ 53 + eta"
    and "Z \<le> X + Y" and "W \<le> Z * 100 / 2 ^ 53 + eta" and "E \<le> W + 100 * Y + 100 * V"
    and "h \<le> 2 ^ 64 * eta" and "0 \<le> eta" and "2 ^ 72 * eta \<le> T" and "0 \<le> A"
  shows "E \<le> A * 100 / 2 ^ 51 + T"
  using assms by simp

lemma roc_accuracy:
  assumes fin: "is_finite first" "is_finite second"
    and f: "1 / 2 ^ 64 \<le> \<bar>rat_of first\<bar>" "\<bar>rat_of first\<bar> \<le> 2 ^ 70"
    and s: "\<bar>rat_of second\<bar> \<le> 2 ^ 70"
  shows "is_finite (js_mul (js_div (js_sub second first) first) (Fin 100))"
    and "\<bar>rat_of (js_mul (js_div (js_sub second first) first) (Fin 100))
          - (rat_of second - rat_of first) / rat_of first * 100\<bar>
         \<le> \<bar>(rat_of second - rat_of first) / rat_of first * 100\<bar> / 2 ^ 51 + 1 / 2 ^ 1000"
proof -
  define p where "p = rat_of first"
  define D where "D = rat_of second - rat_of first"
  define eta :: rat where "eta = 1 / 2 ^ 1075"
  define T :: rat where "T = 1 / 2 ^ 1000"
  define d where "d = rat_of (js_sub second first)"
  define r where "r = rat_of (js_div (js_sub second first) first)"
  define v where "v = rat_of (js_mul (js_div (js_sub second first) first) (Fin 100))"
  define x0 where "x0 = D / p"
  define x1 where "x1 = d / p"
  define h where "h = eta / \<bar>p\<bar>"
  have eta0: "0 \<le> eta" and eta1: "eta \<le> 1 / 2 ^ 1000" and etaT: "2 ^ 72 * eta \<le> T"
    unfolding eta_def T_def by simp_all
  have big71: "(2::rat) ^ 71 \<le> 2 ^ 1023" by (rule power_increasing) simp_all
  have big136: "(2::rat) ^ 136 \<le> 2 ^ 1023" by (rule power_increasing) simp_all
  have big144: "(2::rat) ^ 144 \<le> 2 ^ 1023" by (rule power_increasing) simp_all
  have p0: "0 < \<bar>p\<bar>" and pl: "1 / 2 ^ 64 \<le> \<bar>p\<bar>" and pnz: "p \<noteq> 0"
    using f(1) unfolding p_def by auto
  have D71: "\<bar>D\<bar> \<le> 2 ^ 71" using f(2) s unfolding D_def by simp
  have subb: "\<bar>rat_of second - rat_of first\<bar> \<le> 2 ^ 1023"
    using D71 [unfolded D_def] big71 by (rule order_trans)
  have sub: "\<bar>d - D\<bar> \<le> \<bar>D\<bar> / 2 ^ 53 + eta"
    unfolding d_def D_def eta_def by (rule js_sub_approx(2) [OF fin(2) fin(1) subb])
  have fsub: "is_finite (js_sub second first)"
    by (rule js_sub_approx(1) [OF fin(2) fin(1) subb])
  have hb: "h \<le> 2 ^ 64 * eta"
  proof -
    have "eta / \<bar>p\<bar> \<le> eta / (1 / 2 ^ 64)"
      using pl eta0 by (intro divide_left_mono) simp_all
    then show ?thesis by (simp add: h_def)
  qed
  have h0: "0 \<le> h" using eta0 p0 by (simp add: h_def)
  have A: "\<bar>x0\<bar> \<le> 2 ^ 135"
  proof -
    have "\<bar>D\<bar> / \<bar>p\<bar> \<le> 2 ^ 71 / (1 / 2 ^ 64)"
      using D71 pl by (intro frac_le) simp_all
    then show ?thesis by (simp add: x0_def abs_divide)
  qed
  have V: "\<bar>x1 - x0\<bar> \<le> \<bar>x0\<bar> / 2 ^ 53 + h"
  proof -
    have "x1 - x0 = (d - D) / p" by (simp add: x1_def x0_def diff_divide_distrib)
    then have "\<bar>x1 - x0\<bar> = \<bar>d - D\<bar> / \<bar>p\<bar>" by (simp only: abs_divide)
    also have "\<dots> \<le> (\<bar>D\<bar> / 2 ^ 53 + eta) / \<bar>p\<bar>"
      using sub p0 by (intro divide_right_mono) simp_all
    also have "\<dots> = \<bar>x0\<bar> / 2 ^ 53 + h"
      by (simp add: x0_def h_def abs_divide add_divide_distrib)
    finally show ?thesis .
  qed
  have X: "\<bar>x1\<bar> \<le> \<bar>x0\<bar> + \<bar>x0\<bar> / 2 ^ 53 + h" using V by linarith
  have X136: "\<bar>x1\<bar> \<le> 2 ^ 136" using X A hb eta1 by simp
  have divb: "\<bar>rat_of (js_sub second first) / rat_of first\<bar> \<le> 2 ^ 1023"
    using X136 [unfolded x1_def d_def p_def] big136 by (rule order_trans)
  have pz: "rat_of first \<noteq> 0" using pnz unfolding p_def .
  have dv: "\<bar>r - x1\<bar> \<le> \<bar>x1\<bar> / 2 ^ 53 + eta"
    unfolding r_def x1_def d_def p_def eta_def
    by (rule js_div_approx(2) [OF fsub fin(1) pz divb])
  have fdiv: "is_finite (js_div (js_sub second first) first)"
    by (rule js_div_approx(1) [OF fsub fin(1) pz divb])
  have Z: "\<bar>r\<bar> \<le> \<bar>x1\<bar> + \<bar>x1\<bar> / 2 ^ 53 + eta" using dv by linarith
  have Z137: "\<bar>r\<bar> \<le> 2 ^ 137" using Z X136 eta1 by simp
  have f100: "is_finite (Fin 100)" by (simp add: is_finite_def)
  have r100: "\<bar>r * 100\<bar> = \<bar>r\<bar> * 100" by (simp add: abs_mult)
  have "\<bar>r * 100\<bar> \<le> 2 ^ 144" using Z137 unfolding r100 by simp
  then have "\<bar>r * 100\<bar> \<le> 2 ^ 1023" using big144 by (rule order_trans)
  then have mulb: "\<bar>rat_of (js_div (js_sub second first) first) * rat_of (Fin 100)\<bar> \<le> 2 ^ 1023"
    unfolding r_def by (simp only: rat_of.simps)
  have ml: "\<bar>v - r * 100\<bar> \<le> \<bar>r * 100\<bar> / 2 ^ 53 + eta"
    using js_mul_approx(2) [OF fdiv f100 mulb] unfolding v_def r_def eta_def by simp
  show "is_finite (js_mul (js_div (js_sub second first) first) (Fin 100))"
    by (rule js_mul_approx(1) [OF fdiv f100 mulb])
  have e: "v - x0 * 100 = (v - r * 100) + (100 * (r - x1) + 100 * (x1 - x0))"
    by (simp add: algebra_simps)
  have "\<bar>(v - r * 100) + (100 * (r - x1) + 100 * (x1 - x0))\<bar>
          \<le> \<bar>v - r * 100\<bar> + \<bar>100 * (r - x1) + 100 * (x1 - x0)\<bar>"
    by (rule abs_triangle_ineq)
  also have "\<dots> \<le> \<bar>v - r * 100\<bar> + (\<bar>100 * (r - x1)\<bar> + \<bar>100 * (x1 - x0)\<bar>)"
    by (intro add_left_mono abs_triangle_ineq)
  also have "\<dots> = \<bar>v - r * 100\<bar> + 100 * \<bar>r - x1\<bar> + 100 * \<bar>x1 - x0\<bar>"
    by (simp only: abs_mult abs_numeral add.assoc)
  finally have tri: "\<bar>v - x0 * 100\<bar> \<le> \<bar>v - r * 100\<bar> + 100 * \<bar>r - x1\<bar> + 100 * \<bar>x1 - x0\<bar>"
    by (simp only: e)
  have X': "\<bar>x1\<bar> \<le> \<bar>x0\<bar> + \<bar>x1 - x0\<bar>"
    using abs_triangle_ineq [of x0 "x1 - x0"] by simp
  have Z': "\<bar>r\<bar> \<le> \<bar>x1\<bar> + \<bar>r - x1\<bar>"
    using abs_triangle_ineq [of x1 "r - x1"] by simp
  have a100: "\<bar>x0 * 100\<bar> = \<bar>x0\<bar> * 100" by (simp add: abs_mult)
  have x0n: "0 \<le> \<bar>x0\<bar>" by simp
  have "\<bar>v - x0 * 100\<bar> \<le> \<bar>x0 * 100\<bar> / 2 ^ 51 + T"
    unfolding a100
    by (rule roc_error_sum [OF V X' dv Z' ml [unfolded r100] tri hb eta0 etaT x0n])
  then show "\<bar>rat_of (js_mul (js_div (js_sub second first) first) (Fin 100))
          - (rat_of second - rat_of first) / rat_of first * 100\<bar>
         \<le> \<bar>(rat_of second - rat_of first) / rat_of first * 100\<bar> / 2 ^ 51 + 1 / 2 ^ 1000"
    unfolding v_def x0_def D_def p_def T_def .
qed

lemma roc_text_accuracy:
  assumes "is_finite first" and "is_finite second"
    and "1 / 2 ^ 64 \<le> \<bar>rat_of first\<bar>" and "\<bar>rat_of first\<bar> \<le> 2 ^ 70"
    and "\<bar>rat_of second\<bar> \<le> 2 ^ 70"
  shows "\<exists>v. toFixed ts 2 (js_mul (js_div (js_sub second first) first) (Fin 100)) = toFixed ts 2 (Fin v)
            \<and> \<bar>v - (rat_of second - rat_of first) / rat_of first * 100\<bar>
                \<le> \<bar>(rat_of second - rat_of first) / rat_of first * 100\<bar> / 2 ^ 51 + 1 / 2 ^ 1000"
proof -
  have a: "toFixed ts 2 (js_mul (js_div (js_sub second first) first) (Fin 100))
        = toFixed ts 2 (Fin (rat_of (js_mul (js_div (js_sub second first) first) (Fin 100))))"
    using roc_accuracy(1) [OF assms] by (rule toFixed_finite)
  show ?thesis
    by (rule exI [of _ "rat_of (js_mul (js_div (js_sub second first) first) (Fin 100))"])
       (rule conjI [OF a roc_accuracy(2) [OF assms]])
qed
section \<open>Reading the text of toFixed(2) back\<close>

lemma takeWhile_digits_point:
  "takeWhile isDigit (digits a @ CHR ''.'' # rest) = digits a"
  "dropWhile isDigit (digits a @ CHR ''.'' # rest) = CHR ''.'' # rest"
proof -
  have p: "\<not> isDigit (CHR ''.'')" by (simp add: isDigit_def)
  show "takeWhile isDigit (digits a @ CHR ''.'' # rest) = digits a"
    using digits_all_isDigit p by (simp add: takeWhile_append2)
  show "dropWhile isDigit (digits a @ CHR ''.'' # rest) = CHR ''.'' # rest"
    using digits_all_isDigit p by (simp add: dropWhile_append2)
qed

lemma strDecimalLiteral_fixed2:
  assumes "d1 < 10" and "d0 < 10"
  shows "strDecimalLiteral neg (digits a @ ''.'' @ [digit_char d1, digit_char d0]) =
           (if a = 0 \<and> d1 = 0 \<and> d0 = 0 then zero_s neg
            else round64 ((if neg then - 1 else 1) * (of_nat a + of_nat (10 * d1 + d0) / 100)))"
proof -
  let ?body = "digits a @ ''.'' @ [digit_char d1, digit_char d0]"
  obtain d ds where dd: "digits a = d # ds"
    using digits_nonempty [of a] by (cases "digits a") auto
  then have "isDigit d" using digits_all_isDigit [of d a] by simp
  then have "d \<noteq> CHR ''I''" by (rule isDigit_not_special)
  then have ninf: "take 8 ?body \<noteq> ''Infinity''" by (simp add: dd)
  have fp: "takeWhile isDigit [digit_char d1, digit_char d0] = [digit_char d1, digit_char d0]"
    using assms by (simp add: isDigit_digit_char)
  have r2: "dropWhile isDigit [digit_char d1, digit_char d0] = []"
    using assms by (simp add: isDigit_digit_char)
  have v: "digitsVal [digit_char d1, digit_char d0] = 10 * d1 + d0"
    using assms by (simp add: digitsVal_def digitVal_digit_char)
  have e: "exponentPart [] = 0" by (simp add: exponentPart_def)
  have z: "(rat_of_nat a + rat_of_nat (10 * d1 + d0) / 100 = 0) = (a = 0 \<and> d1 = 0 \<and> d0 = 0)"
  proof -
    have "(rat_of_nat (10 * d1 + d0) / 100 = 0) = (rat_of_nat (10 * d1 + d0) = 0)"
      by (simp del: of_nat_add of_nat_mult)
    also have "\<dots> = (10 * d1 + d0 = 0)" by (rule of_nat_eq_0_iff)
    also have "\<dots> = (d1 = 0 \<and> d0 = 0)" by simp
    finally have y0: "(rat_of_nat (10 * d1 + d0) / 100 = 0) = (d1 = 0 \<and> d0 = 0)" .
    have x0: "(rat_of_nat a = 0) = (a = 0)" by (rule of_nat_eq_0_iff)
    have "0 \<le> rat_of_nat a" by simp
    moreover have "0 \<le> rat_of_nat (10 * d1 + d0) / 100" by (simp del: of_nat_add of_nat_mult)
    ultimately have "(rat_of_nat a + rat_of_nat (10 * d1 + d0) / 100 = 0)
        = (rat_of_nat a = 0 \<and> rat_of_nat (10 * d1 + d0) / 100 = 0)"
      by (rule add_nonneg_eq_0_iff)
    then show ?thesis by (simp only: x0 y0)
  qed
  have "strDecimalLiteral neg ?body =
          (if rat_of_nat a + rat_of_nat (10 * d1 + d0) / 100 = 0 then zero_s neg
           else round64 (if neg then - (rat_of_nat a + rat_of_nat (10 * d1 + d0) / 100)
                         else rat_of_nat a + rat_of_nat (10 * d1 + d0) / 100))"
    unfolding strDecimalLiteral_def Let_def
    using ninf digits_nonempty [of a] assms v
    by (simp add: takeWhile_digits_point isDigit_digit_char e digitsVal_digits
          del: of_nat_add of_nat_mult)
  then show ?thesis
    by (simp only: z) simp
qed

lemma parseFloat_fixed2:
  assumes "d1 < 10" and "d0 < 10"
  shows "parseFloat ((if neg then ''-'' else '''') @ digits a @ ''.'' @ [digit_char d1, digit_char d0]) =
           (if a = 0 \<and> d1 = 0 \<and> d0 = 0 then zero_s neg
            else round64 ((if neg then - 1 else 1) * (of_nat a + of_nat (10 * d1 + d0) / 100)))"
proof -
  let ?body = "digits a @ ''.'' @ [digit_char d1, digit_char d0]"
  obtain d ds where dd: "digits a = d # ds"
    using digits_nonempty [of a] by (cases "digits a") auto
  then have "isDigit d" using digits_all_isDigit [of d a] by simp
  then have d: "\<not> isStrWhiteSpaceChar d" "d \<noteq> CHR ''-''" "d \<noteq> CHR ''+''"
    by (rule isDigit_not_special)+
  have m: "\<not> isStrWhiteSpaceChar (CHR ''-'')" by (simp add: isStrWhiteSpaceChar_def)
  have "parseFloat ((if neg then ''-'' else '''') @ ?body) = strDecimalLiteral neg ?body"
    using d m by (cases neg) (simp_all add: parseFloat_def Let_def dd)
  then show ?thesis
    by (simp only: strDecimalLiteral_fixed2 [OF assms])
qed

lemma hundredths_split:
  "rat_of_nat (n div 100) + rat_of_nat (10 * (n div 10 mod 10) + n mod 10) / 100 = rat_of_nat n / 100"
proof -
  define x where "x = n div 100"
  define y where "y = 10 * (n div 10 mod 10) + n mod 10"
  have "n mod (10 * 10) = 10 * (n div 10 mod 10) + n mod 10" by (rule mod_mult2_eq)
  then have m: "n mod 100 = y" by (simp add: y_def)
  have "n = 100 * (n div 100) + n mod 100" by simp
  then have "n = 100 * x + y" by (simp only: m x_def)
  then have "rat_of_nat n = rat_of_nat (100 * x + y)" by (rule arg_cong)
  then have e: "rat_of_nat n = 100 * rat_of_nat x + rat_of_nat y"
    by (simp only: of_nat_add of_nat_mult of_nat_numeral)
  have "(100 * rat_of_nat x + rat_of_nat y) / 100 = rat_of_nat x + rat_of_nat y / 100"
    by (simp add: add_divide_distrib)
  then have "rat_of_nat x + rat_of_nat y / 100 = rat_of_nat n / 100"
    by (simp only: e)
  then show ?thesis by (simp only: x_def y_def)
qed

lemma hundredths_zero:
  assumes "n div 100 = 0 \<and> n div 10 mod 10 = 0 \<and> n mod 10 = 0"
  shows "n = (0::nat)"
proof -
  have "n < 100" using assms by (simp add: div_eq_0_iff)
  then have "n div 10 < 10" by simp
  then have "n div 10 = 0" using assms by simp
  then have "n < 10" by (simp add: div_eq_0_iff)
  then show ?thesis using assms by simp
qed

lemma round2_error: "\<bar>round2 q - q\<bar> \<le> 1 / 200"
proof -
  let ?f = "rat_of_int \<lfloor>\<bar>q\<bar> * 100 + 1 / 2\<rfloor>"
  have lo: "?f \<le> \<bar>q\<bar> * 100 + 1 / 2" by (rule of_int_floor_le)
  have hi: "\<bar>q\<bar> * 100 + 1 / 2 < ?f + 1" by linarith
  have m: "\<bar>?f / 100 - \<bar>q\<bar>\<bar> \<le> 1 / 200" using lo hi by linarith
  show ?thesis
  proof (cases "q < 0")
    case True
    then have "round2 q - q = - (?f / 100 - \<bar>q\<bar>)" by (simp add: round2_def sgn_if)
    then have "\<bar>round2 q - q\<bar> = \<bar>?f / 100 - \<bar>q\<bar>\<bar>" by (simp only: abs_minus)
    then show ?thesis using m by (simp only:)
  next
    case False
    then have "round2 q - q = ?f / 100 - \<bar>q\<bar>" by (cases "q = 0") (simp_all add: round2_def sgn_if floor_eq_iff)
    then show ?thesis using m by (simp only:)
  qed
qed

lemma round2_sign:
  "round2 q = (if q < 0 then - 1 else 1) * (rat_of_nat (nat \<lfloor>\<bar>q\<bar> * 100 + 1 / 2\<rfloor>) / 100)"
proof -
  have nn: "0 \<le> \<lfloor>\<bar>q\<bar> * 100 + 1 / 2\<rfloor>" by simp
  consider "q < 0" | "q = 0" | "0 < q" by linarith
  then show ?thesis
  proof cases
    case 1
    then show ?thesis using nn by (simp add: round2_def sgn_if)
  next
    case 2
    then have "\<lfloor>\<bar>q\<bar> * 100 + 1 / 2\<rfloor> = 0" by (simp add: floor_eq_iff)
    then show ?thesis using 2 by (simp add: round2_def)
  next
    case 3
    then show ?thesis using nn by (simp add: round2_def sgn_if)
  qed
qed

lemma round2_zero_iff: "(round2 q = 0) = (nat \<lfloor>\<bar>q\<bar> * 100 + 1 / 2\<rfloor> = 0)"
proof -
  define n where "n = nat \<lfloor>\<bar>q\<bar> * 100 + 1 / 2\<rfloor>"
  have r: "round2 q = (if q < 0 then - 1 else 1) * (rat_of_nat n / 100)"
    unfolding n_def by (rule round2_sign)
  have "(round2 q = 0) = (rat_of_nat n = 0)" by (cases "q < 0") (simp_all add: r)
  also have "\<dots> = (n = 0)" by (rule of_nat_eq_0_iff)
  finally show ?thesis unfolding n_def .
qed

lemma round2_lower:
  assumes "round2 q \<noteq> 0"
  shows "1 / 100 \<le> \<bar>round2 q\<bar>"
proof -
  define n where "n = nat \<lfloor>\<bar>q\<bar> * 100 + 1 / 2\<rfloor>"
  have r: "round2 q = (if q < 0 then - 1 else 1) * (rat_of_nat n / 100)"
    unfolding n_def by (rule round2_sign)
  have "n \<noteq> 0" using assms unfolding n_def by (simp only: round2_zero_iff not_False_eq_True)
  then have "1 \<le> n" by simp
  then have "rat_of_nat 1 \<le> rat_of_nat n" by (simp only: of_nat_le_iff)
  then have n1: "1 \<le> rat_of_nat n" by simp
  have "\<bar>round2 q\<bar> = rat_of_nat n / 100" unfolding r by (simp add: abs_mult)
  then show ?thesis using n1 by simp
qed

lemma round2_upper:
  assumes "\<bar>q\<bar> < 10 ^ 21"
  shows "\<bar>round2 q\<bar> \<le> 10 ^ 21 + 1 / 200"
proof -
  have "\<bar>round2 q\<bar> - \<bar>q\<bar> \<le> \<bar>round2 q - q\<bar>" by (rule abs_triangle_ineq2)
  then have "\<bar>round2 q\<bar> \<le> \<bar>q\<bar> + 1 / 200" using round2_error [of q] by linarith
  then show ?thesis using assms by linarith
qed

text \<open>
  The text of \<open>toFixed(2)\<close> of a number below \<open>10^21\<close> in magnitude reads back as the
  binary64 number nearest to the number rounded to two decimals, and as a zero if that is
  zero.
\<close>

lemma parseFloat_toFixed2:
  assumes "\<bar>q\<bar> < 10 ^ 21"
  shows "parseFloat (toFixed ts 2 (Fin q)) =
           (if round2 q = 0 then zero_s (q < 0) else round64 (round2 q))"
proof -
  define n where "n = nat \<lfloor>\<bar>q\<bar> * 100 + 1 / 2\<rfloor>"
  have p: "parseFloat (toFixed ts 2 (Fin q)) =
        (if n div 100 = 0 \<and> n div 10 mod 10 = 0 \<and> n mod 10 = 0 then zero_s (q < 0)
         else round64 ((if q < 0 then - 1 else 1)
                   * (of_nat (n div 100) + of_nat (10 * (n div 10 mod 10) + n mod 10) / 100)))"
    unfolding n_def
    by (simp only: toFixed2_Fin [OF assms])
       (rule parseFloat_fixed2, simp_all)
  have r: "round2 q = (if q < 0 then - 1 else 1) * (rat_of_nat n / 100)"
    unfolding n_def by (rule round2_sign)
  have z: "(round2 q = 0) = (n = 0)" unfolding n_def by (rule round2_zero_iff)
  show ?thesis
  proof (cases "n = 0")
    case True
    then have c: "n div 100 = 0 \<and> n div 10 mod 10 = 0 \<and> n mod 10 = 0" by simp
    have e: "parseFloat (toFixed ts 2 (Fin q)) = zero_s (q < 0)"
      unfolding p using c by (rule if_P)
    have "round2 q = 0" using True by (simp only: z)
    then show ?thesis unfolding e by (rule if_P [symmetric])
  next
    case False
    have c: "\<not> (n div 100 = 0 \<and> n div 10 mod 10 = 0 \<and> n mod 10 = 0)"
    proof
      assume "n div 100 = 0 \<and> n div 10 mod 10 = 0 \<and> n mod 10 = 0"
      then have "n = 0" by (rule hundredths_zero)
      with False show False by (rule notE)
    qed
    have "parseFloat (toFixed ts 2 (Fin q)) =
            round64 ((if q < 0 then - 1 else 1)
                   * (of_nat (n div 100) + of_nat (10 * (n div 10 mod 10) + n mod 10) / 100))"
      unfolding p using c by (rule if_not_P)
    then have e: "parseFloat (toFixed ts 2 (Fin q)) = round64 (round2 q)"
      by (simp only: hundredths_split r)
    have "round2 q \<noteq> 0" using False by (simp only: z not_False_eq_True)
    then show ?thesis unfolding e by (rule if_not_P [symmetric])
  qed
qed

lemma aggregate_bounds:
  fixes R P E :: rat
  assumes "1 / 100 \<le> R" and "R \<le> 10 ^ 21 + 1 / 200" and "E \<le> R / 2 ^ 53"
    and "R - P \<le> E" and "P - R \<le> E"
  shows "1 / 2 ^ 64 \<le> P" and "P \<le> 2 ^ 70"
  using assms by simp_all

text \<open>
  So an aggregate that is finite and below \<open>10^21\<close> in magnitude reads back from its text
  as a finite number, within a relative distance of \<open>2^-53\<close> of the aggregate rounded to
  two decimals, and as zero exactly if that is zero.
\<close>

lemma parse_aggregate:
  assumes "is_finite x" and "\<bar>rat_of x\<bar> < 10 ^ 21"
  shows "is_finite (parseFloat (toFixed ts 2 x))"
    and "\<bar>rat_of (parseFloat (toFixed ts 2 x)) - round2 (rat_of x)\<bar> \<le> \<bar>round2 (rat_of x)\<bar> / 2 ^ 53"
    and "(rat_of (parseFloat (toFixed ts 2 x)) = 0) = (round2 (rat_of x) = 0)"
    and "\<bar>rat_of (parseFloat (toFixed ts 2 x))\<bar> \<le> 2 ^ 70"
    and "round2 (rat_of x) \<noteq> 0 \<Longrightarrow> 1 / 2 ^ 64 \<le> \<bar>rat_of (parseFloat (toFixed ts 2 x))\<bar>"
proof -
  define R where "R = round2 (rat_of x)"
  define P where "P = parseFloat (toFixed ts 2 x)"
  have pe: "P = (if R = 0 then zero_s (rat_of x < 0) else round64 R)"
    unfolding P_def R_def
    by (simp only: toFixed_finite [OF assms(1)] parseFloat_toFixed2 [OF assms(2)])
  have all: "is_finite P \<and> \<bar>rat_of P - R\<bar> \<le> \<bar>R\<bar> / 2 ^ 53 \<and> (rat_of P = 0) = (R = 0)
       \<and> \<bar>rat_of P\<bar> \<le> 2 ^ 70 \<and> (R \<noteq> 0 \<longrightarrow> 1 / 2 ^ 64 \<le> \<bar>rat_of P\<bar>)"
  proof (cases "R = 0")
    case True
    then have "P = zero_s (rat_of x < 0)" unfolding pe by (rule if_P)
    then show ?thesis using True by (simp add: zero_s_def is_finite_def)
  next
    case False
    then have P: "P = round64 R" unfolding pe by (rule if_not_P)
    have lo: "1 / 100 \<le> \<bar>R\<bar>" using False unfolding R_def by (rule round2_lower)
    have hi: "\<bar>R\<bar> \<le> 10 ^ 21 + 1 / 200" unfolding R_def using assms(2) by (rule round2_upper)
    have "(10::rat) ^ 21 + 1 / 200 \<le> 2 ^ 70" by simp
    moreover have "(2::rat) ^ 70 \<le> 2 ^ 1023" by (rule power_increasing) simp_all
    ultimately have "(10::rat) ^ 21 + 1 / 200 \<le> 2 ^ 1023" by (rule order_trans)
    with hi have big: "\<bar>R\<bar> \<le> 2 ^ 1023" by (rule order_trans)
    have "(2::rat) powi (- 1022) \<le> 2 powi (- 7)" by (rule power_int_increasing) simp_all
    also have "\<dots> \<le> 1 / 100" by simp
    finally have "(2::rat) powi (- 1022) \<le> 1 / 100" .
    then have small: "2 powi (- 1022) \<le> \<bar>R\<bar>" using lo by (rule order_trans)
    have fin: "is_finite P" unfolding P using big by (rule round64_error(1))
    have err: "\<bar>rat_of P - R\<bar> \<le> \<bar>R\<bar> / 2 ^ 53"
      unfolding P using small big by (rule round64_error_normal)
    have t1: "\<bar>R\<bar> - \<bar>rat_of P\<bar> \<le> \<bar>rat_of P - R\<bar>" by (rule abs_triangle_ineq2_sym)
    have t2: "\<bar>rat_of P\<bar> - \<bar>R\<bar> \<le> \<bar>rat_of P - R\<bar>" by (rule abs_triangle_ineq2)
    have b1: "1 / 2 ^ 64 \<le> \<bar>rat_of P\<bar>" by (rule aggregate_bounds(1) [OF lo hi err t1 t2])
    have b2: "\<bar>rat_of P\<bar> \<le> 2 ^ 70" by (rule aggregate_bounds(2) [OF lo hi err t1 t2])
    have "(0::rat) < 1 / 2 ^ 64" by simp
    then have "0 < \<bar>rat_of P\<bar>" using b1 by (rule less_le_trans)
    then have nz: "rat_of P \<noteq> 0" by simp
    show ?thesis using fin err nz False b1 b2 by (intro conjI impI) simp_all
  qed
  show "is_finite (parseFloat (toFixed ts 2 x))"
    using all unfolding P_def by (elim conjE)
  show "\<bar>rat_of (parseFloat (toFixed ts 2 x)) - round2 (rat_of x)\<bar> \<le> \<bar>round2 (rat_of x)\<bar> / 2 ^ 53"
    using all unfolding P_def R_def by (elim conjE)
  show "(rat_of (parseFloat (toFixed ts 2 x)) = 0) = (round2 (rat_of x) = 0)"
    using all unfolding P_def R_def by (elim conjE)
  show "\<bar>rat_of (parseFloat (toFixed ts 2 x))\<bar> \<le> 2 ^ 70"
    using all unfolding P_def by (elim conjE)
  show "1 / 2 ^ 64 \<le> \<bar>rat_of (parseFloat (toFixed ts 2 x))\<bar>" if "round2 (rat_of x) \<noteq> 0"
    using all that unfolding P_def R_def by (elim conjE) simp
qed

section \<open>Numbers that are not rounded, and texts of numbers\<close>

lemma round64_numeral:
  "numeral k < (2::int) ^ 53 \<Longrightarrow> round64 (numeral k) = Fin (numeral k)"
  using round64_int [of "numeral k"] by simp

lemma round64_neg_numeral:
  "numeral k < (2::int) ^ 53 \<Longrightarrow> round64 (- numeral k) = Fin (- numeral k)"
  using round64_int [of "- numeral k"] by simp

lemma round64_half:
  "round64 (1 / 2) = Fin (1 / 2)" "round64 (- (1 / 2)) = Fin (- (1 / 2))"
proof -
  show "round64 (1 / 2) = Fin (1 / 2)"
    by (rule round64_dyadic [where n = 1 and q = "- 1"]) simp_all
  show "round64 (- (1 / 2)) = Fin (- (1 / 2))"
    by (rule round64_dyadic [where n = "- 1" and q = "- 1"]) simp_all
qed

lemma toFixed2_digits:
  assumes "\<bar>q\<bar> < 10 ^ 21"
    and "rat_of_nat n \<le> \<bar>q\<bar> * 100 + 1 / 2" and "\<bar>q\<bar> * 100 + 1 / 2 < rat_of_nat n + 1"
  shows "toFixed ts 2 (Fin q) =
           (if q < 0 then ''-'' else [])
           @ digits (n div 100) @ ''.'' @ [digit_char (n div 10 mod 10), digit_char (n mod 10)]"
proof -
  have "rat_of_int (int n) \<le> \<bar>q\<bar> * 100 + 1 / 2" using assms(2) by simp
  moreover have "\<bar>q\<bar> * 100 + 1 / 2 < rat_of_int (int n) + 1" using assms(3) by simp
  ultimately have "\<lfloor>\<bar>q\<bar> * 100 + 1 / 2\<rfloor> = int n" by (rule floor_unique)
  then have "nat \<lfloor>\<bar>q\<bar> * 100 + 1 / 2\<rfloor> = n" by simp
  then show ?thesis by (simp only: toFixed2_Fin [OF assms(1)])
qed

lemma parseFloat_NA: "parseFloat ''N/A'' = NaN"
  by code_simp

text \<open>
  The rate of change from 160 to 183. The quotient 23/160 is not a binary64 number; it is
  rounded down, by \<open>2/5\<close> of the spacing \<open>2^-55\<close>, and its product with 100 is rounded
  down again, to the binary64 number next below \<open>14.375\<close>.
\<close>

lemma roc_160_183:
  "js_mul (js_div (js_sub (Fin 183) (Fin 160)) (Fin 160)) (Fin 100)
     = Fin (8092405580431359 / 2 ^ 49)"
proof -
  have s: "js_sub (Fin 183) (Fin 160) = Fin 23"
    by (simp add: js_sub_def round64_numeral)
  have q: "round64 (23 / 160) = Fin (5179139571476070 / 2 ^ 55)"
    using round64_significand [of "23 / 160" 55 5179139571476070] by simp
  have d: "js_div (Fin 23) (Fin 160) = Fin (5179139571476070 / 2 ^ 55)"
    by (simp add: js_div_def q)
  have m: "round64 (5179139571476070 / 2 ^ 55 * 100) = Fin (8092405580431359 / 2 ^ 49)"
    using round64_significand [of "5179139571476070 / 2 ^ 55 * 100" 49 8092405580431359] by simp
  have "js_mul (Fin (5179139571476070 / 2 ^ 55)) (Fin 100) = Fin (8092405580431359 / 2 ^ 49)"
    using m by (simp add: js_mul_def)
  then show ?thesis by (simp only: s d)
qed

lemma toFixed_14_37: "toFixed (\<lambda>q. []) 2 (Fin (8092405580431359 / 2 ^ 49)) = ''14.37''"
  using toFixed2_digits [of "8092405580431359 / 2 ^ 49" 1437 "\<lambda>q. []"]
  by (simp add: digits.simps digit_char_def char_of_eq_iff)

lemma toFixed_14_38: "toFixed (\<lambda>q. []) 2 (Fin ((183 - 160) / 160 * 100)) = ''14.38''"
  using toFixed2_digits [of "(183 - 160) / 160 * 100" 1438 "\<lambda>q. []"]
  by (simp add: digits.simps digit_char_def char_of_eq_iff)
text \<open>
  The mean of 1.375, 1, 1, 1 and 1. The sum 5.375 is a binary64 number, the quotient 1.075
  is not: it is rounded down, and \<open>toFixed(2)\<close> prints 1.07.
\<close>

lemma mean_example:
  "toFixed (\<lambda>q. []) 2 (mean [Fin (11 / 8), Fin 1, Fin 1, Fin 1, Fin 1]) = ''1.07''"
proof -
  have r: "round64 (11 / 8) = Fin (11 / 8)" "round64 (19 / 8) = Fin (19 / 8)"
    "round64 (27 / 8) = Fin (27 / 8)" "round64 (35 / 8) = Fin (35 / 8)"
    "round64 (43 / 8) = Fin (43 / 8)"
    by (rule round64_dyadic [where n = 11 and q = "- 3"], simp_all)
       (rule round64_dyadic [where n = 19 and q = "- 3"], simp_all,
        rule round64_dyadic [where n = 27 and q = "- 3"], simp_all,
        rule round64_dyadic [where n = 35 and q = "- 3"], simp_all,
        rule round64_dyadic [where n = 43 and q = "- 3"], simp_all)
  have s: "foldl js_add (Fin 0) [Fin (11 / 8), Fin 1, Fin 1, Fin 1, Fin 1] = Fin (43 / 8)"
    by (simp add: r)
  have q: "round64 (43 / 40) = Fin (4841369599423283 / 2 ^ 52)"
    using round64_significand [of "43 / 40" 52 4841369599423283] by simp
  have "js_div (Fin (43 / 8)) (Fin 5) = Fin (4841369599423283 / 2 ^ 52)"
    using q by (simp add: js_div_def)
  then have m: "mean [Fin (11 / 8), Fin 1, Fin 1, Fin 1, Fin 1] = Fin (4841369599423283 / 2 ^ 52)"
    unfolding mean_def s by simp
  show ?thesis
    unfolding m
    using toFixed2_digits [of "4841369599423283 / 2 ^ 52" 107 "\<lambda>q. []"]
    by (simp add: digits.simps digit_char_def char_of_eq_iff)
qed

section \<open>The rate of change between two aggregates\<close>

lemma calcRoc_zero_first:
  assumes "is_finite (parseFloat first)" and "is_finite (parseFloat second)"
    and "rat_of (parseFloat first) = 0"
  shows "calcRoc ts first second \<in> {''NaN'', ''Infinity'', ''-Infinity''}"
proof -
  have n1: "first \<noteq> ''N/A''" using assms(1) by (auto simp: parseFloat_NA is_finite_def)
  have n2: "second \<noteq> ''N/A''" using assms(2) by (auto simp: parseFloat_NA is_finite_def)
  have z: "is_zero (parseFloat first)" using assms(1,3) by (rule finite_zero)
  have c: "calcRoc ts first second =
        toFixed ts 2 (js_mul (js_div (js_sub (parseFloat second) (parseFloat first)) (parseFloat first))
                        (Fin 100))"
    using n1 n2 by (simp add: calcRoc_def)
  show ?thesis unfolding c using z by (rule roc_zero_first)
qed

lemma calcRoc_accuracy:
  assumes "is_finite (parseFloat first)" and "is_finite (parseFloat second)"
    and "1 / 2 ^ 64 \<le> \<bar>rat_of (parseFloat first)\<bar>" and "\<bar>rat_of (parseFloat first)\<bar> \<le> 2 ^ 70"
    and "\<bar>rat_of (parseFloat second)\<bar> \<le> 2 ^ 70"
  shows "\<exists>v. calcRoc ts first second = toFixed ts 2 (Fin v)
            \<and> \<bar>v - (rat_of (parseFloat second) - rat_of (parseFloat first))
                      / rat_of (parseFloat first) * 100\<bar>
                \<le> \<bar>(rat_of (parseFloat second) - rat_of (parseFloat first))
                      / rat_of (parseFloat first) * 100\<bar> / 2 ^ 51 + 1 / 2 ^ 1000"
proof -
  have n1: "first \<noteq> ''N/A''" using assms(1) by (auto simp: parseFloat_NA is_finite_def)
  have n2: "second \<noteq> ''N/A''" using assms(2) by (auto simp: parseFloat_NA is_finite_def)
  have c: "calcRoc ts first second =
        toFixed ts 2 (js_mul (js_div (js_sub (parseFloat second) (parseFloat first)) (parseFloat first))
                        (Fin 100))"
    using n1 n2 by (simp add: calcRoc_def)
  show ?thesis unfolding c using assms by (rule roc_text_accuracy)
qed

text \<open>
  C1, as the code has it. If either aggregate is the text N/A the rate of change is N/A.
  Otherwise the code never answers N/A: it reads the two texts back as numbers and prints
  \<open>((second - first) / first) * 100\<close> of these, computed in binary64, with two decimals.
  If the first text reads as zero, the result is one of the texts NaN, Infinity and
  -Infinity. The aggregates are texts of \<open>toFixed(2)\<close>; for finite data below \<open>10^21\<close> in
  magnitude such a text reads back as the datum rounded to two decimals, within a relative
  distance of \<open>2^-53\<close>, so the first aggregate reads as zero exactly if it is printed as
  0.00 or -0.00, which a datum of magnitude below 0.005 is, not only zero. Otherwise the
  rate of change is the text, with two decimals, of a number within a relative distance of
  \<open>2^-51\<close> of the exact quotient of the numbers read back (up to \<open>2^-1000\<close>); it is that
  number which is rounded to two decimals, so the text can differ in its last digit from
  the exact quotient rounded to two decimals.
\<close>

theorem calcRoc_by_cases:
  "(first = ''N/A'' \<or> second = ''N/A'' \<longrightarrow> calcRoc ts first second = ''N/A'')
   \<and> (is_finite (parseFloat first) \<and> is_finite (parseFloat second)
        \<and> rat_of (parseFloat first) = 0 \<longrightarrow>
        calcRoc ts first second \<in> {''NaN'', ''Infinity'', ''-Infinity''})
   \<and> (is_finite x \<and> is_finite y \<and> \<bar>rat_of x\<bar> < 10 ^ 21 \<and> \<bar>rat_of y\<bar> < 10 ^ 21 \<longrightarrow>
        is_finite (parseFloat (toFixed ts 2 x)) \<and> is_finite (parseFloat (toFixed ts 2 y))
        \<and> \<bar>rat_of (parseFloat (toFixed ts 2 x)) - round2 (rat_of x)\<bar> \<le> \<bar>round2 (rat_of x)\<bar> / 2 ^ 53
        \<and> \<bar>rat_of (parseFloat (toFixed ts 2 y)) - round2 (rat_of y)\<bar> \<le> \<bar>round2 (rat_of y)\<bar> / 2 ^ 53
        \<and> (if round2 (rat_of x) = 0
           then calcRoc ts (toFixed ts 2 x) (toFixed ts 2 y) \<in> {''NaN'', ''Infinity'', ''-Infinity''}
           else \<exists>v. calcRoc ts (toFixed ts 2 x) (toFixed ts 2 y) = toFixed ts 2 (Fin v)
                  \<and> \<bar>v - (rat_of (parseFloat (toFixed ts 2 y)) - rat_of (parseFloat (toFixed ts 2 x)))
                            / rat_of (parseFloat (toFixed ts 2 x)) * 100\<bar>
                      \<le> \<bar>(rat_of (parseFloat (toFixed ts 2 y)) - rat_of (parseFloat (toFixed ts 2 x)))
                            / rat_of (parseFloat (toFixed ts 2 x)) * 100\<bar> / 2 ^ 51 + 1 / 2 ^ 1000))"
proof (intro conjI impI)
  assume "first = ''N/A'' \<or> second = ''N/A''"
  then show "calcRoc ts first second = ''N/A''" by (simp add: calcRoc_def)
next
  assume "is_finite (parseFloat first) \<and> is_finite (parseFloat second)
        \<and> rat_of (parseFloat first) = 0"
  then show "calcRoc ts first second \<in> {''NaN'', ''Infinity'', ''-Infinity''}"
    by (intro calcRoc_zero_first) simp_all
next
  assume h: "is_finite x \<and> is_finite y \<and> \<bar>rat_of x\<bar> < 10 ^ 21 \<and> \<bar>rat_of y\<bar> < 10 ^ 21"
  then have fx: "is_finite x" and fy: "is_finite y"
    and bx: "\<bar>rat_of x\<bar> < 10 ^ 21" and "by": "\<bar>rat_of y\<bar> < 10 ^ 21" by simp_all
  note px = parse_aggregate [OF fx bx, of ts]
  note py = parse_aggregate [OF fy "by", of ts]
  show "is_finite (parseFloat (toFixed ts 2 x))" by (rule px(1))
  show "is_finite (parseFloat (toFixed ts 2 y))" by (rule py(1))
  show "\<bar>rat_of (parseFloat (toFixed ts 2 x)) - round2 (rat_of x)\<bar> \<le> \<bar>round2 (rat_of x)\<bar> / 2 ^ 53"
    by (rule px(2))
  show "\<bar>rat_of (parseFloat (toFixed ts 2 y)) - round2 (rat_of y)\<bar> \<le> \<bar>round2 (rat_of y)\<bar> / 2 ^ 53"
    by (rule py(2))
  show "if round2 (rat_of x) = 0
           then calcRoc ts (toFixed ts 2 x) (toFixed ts 2 y) \<in> {''NaN'', ''Infinity'', ''-Infinity''}
           else \<exists>v. calcRoc ts (toFixed ts 2 x) (toFixed ts 2 y) = toFixed ts 2 (Fin v)
                  \<and> \<bar>v - (rat_of (parseFloat (toFixed ts 2 y)) - rat_of (parseFloat (toFixed ts 2 x)))
                            / rat_of (parseFloat (toFixed ts 2 x)) * 100\<bar>
                      \<le> \<bar>(rat_of (parseFloat (toFixed ts 2 y)) - rat_of (parseFloat (toFixed ts 2 x)))
                            / rat_of (parseFloat (toFixed ts 2 x)) * 100\<bar> / 2 ^ 51 + 1 / 2 ^ 1000"
  proof (cases "round2 (rat_of x) = 0")
    case True
    then have "rat_of (parseFloat (toFixed ts 2 x)) = 0" by (simp only: px(3))
    with px(1) py(1)
    have "calcRoc ts (toFixed ts 2 x) (toFixed ts 2 y) \<in> {''NaN'', ''Infinity'', ''-Infinity''}"
      by (rule calcRoc_zero_first)
    then show ?thesis by (subst if_P [OF True])
  next
    case False
    have "\<exists>v. calcRoc ts (toFixed ts 2 x) (toFixed ts 2 y) = toFixed ts 2 (Fin v)
                  \<and> \<bar>v - (rat_of (parseFloat (toFixed ts 2 y)) - rat_of (parseFloat (toFixed ts 2 x)))
                            / rat_of (parseFloat (toFixed ts 2 x)) * 100\<bar>
                      \<le> \<bar>(rat_of (parseFloat (toFixed ts 2 y)) - rat_of (parseFloat (toFixed ts 2 x)))
                            / rat_of (parseFloat (toFixed ts 2 x)) * 100\<bar> / 2 ^ 51 + 1 / 2 ^ 1000"
      by (rule calcRoc_accuracy [OF px(1) py(1) px(5) [OF False] px(4) py(4)])
    then show ?thesis by (subst if_not_P [OF False])
  qed
qed

lemma toFixed_examples:
  "toFixed (\<lambda>q. []) 2 (Fin 0) = ''0.00''"
  "toFixed (\<lambda>q. []) 2 (Fin 5) = ''5.00''"
  "toFixed (\<lambda>q. []) 2 (Fin (1 / 256)) = ''0.00''"
  "toFixed (\<lambda>q. []) 2 (Fin 160) = ''160.00''"
  "toFixed (\<lambda>q. []) 2 (Fin 183) = ''183.00''"
  "toFixed (\<lambda>q. []) 2 (Fin 50) = ''50.00''"
  "toFixed (\<lambda>q. []) 2 (Fin (- 50)) = ''-50.00''"
proof -
  show "toFixed (\<lambda>q. []) 2 (Fin 0) = ''0.00''"
    using toFixed2_digits [of 0 0 "\<lambda>q. []"]
    by (simp add: digits.simps digit_char_def char_of_eq_iff)
  show "toFixed (\<lambda>q. []) 2 (Fin 5) = ''5.00''"
    using toFixed2_digits [of 5 500 "\<lambda>q. []"]
    by (simp add: digits.simps digit_char_def char_of_eq_iff)
  show "toFixed (\<lambda>q. []) 2 (Fin (1 / 256)) = ''0.00''"
    using toFixed2_digits [of "1 / 256" 0 "\<lambda>q. []"]
    by (simp add: digits.simps digit_char_def char_of_eq_iff)
  show "toFixed (\<lambda>q. []) 2 (Fin 160) = ''160.00''"
    using toFixed2_digits [of 160 16000 "\<lambda>q. []"]
    by (simp add: digits.simps digit_char_def char_of_eq_iff)
  show "toFixed (\<lambda>q. []) 2 (Fin 183) = ''183.00''"
    using toFixed2_digits [of 183 18300 "\<lambda>q. []"]
    by (simp add: digits.simps digit_char_def char_of_eq_iff)
  show "toFixed (\<lambda>q. []) 2 (Fin 50) = ''50.00''"
    using toFixed2_digits [of 50 5000 "\<lambda>q. []"]
    by (simp add: digits.simps digit_char_def char_of_eq_iff)
  show "toFixed (\<lambda>q. []) 2 (Fin (- 50)) = ''-50.00''"
    using toFixed2_digits [of "- 50" 5000 "\<lambda>q. []"]
    by (simp add: digits.simps digit_char_def char_of_eq_iff)
qed

lemma round2_examples:
  "round2 5 = 5" "round2 160 = 160" "round2 183 = 183" "round2 (1 / 256) = 0"
  by (simp_all add: round2_def floor_rat_numeral_div)

lemma parseFloat_examples:
  "parseFloat ''0.00'' = Fin 0"
  "parseFloat ''5.00'' = Fin 5"
  "parseFloat ''160.00'' = Fin 160"
  "parseFloat ''183.00'' = Fin 183"
proof -
  show "parseFloat ''0.00'' = Fin 0" by code_simp
  show "parseFloat ''5.00'' = Fin 5"
    using parseFloat_toFixed2 [of 5 "\<lambda>q. []"]
    by (simp add: toFixed_examples round2_examples round64_numeral)
  show "parseFloat ''160.00'' = Fin 160"
    using parseFloat_toFixed2 [of 160 "\<lambda>q. []"]
    by (simp add: toFixed_examples round2_examples round64_numeral)
  show "parseFloat ''183.00'' = Fin 183"
    using parseFloat_toFixed2 [of 183 "\<lambda>q. []"]
    by (simp add: toFixed_examples round2_examples round64_numeral)
qed

lemma calcRoc_examples:
  "calcRoc (\<lambda>q. []) ''0.00'' ''5.00'' = ''Infinity''"
  "calcRoc (\<lambda>q. []) ''160.00'' ''183.00'' = ''14.37''"
proof -
  show "calcRoc (\<lambda>q. []) ''0.00'' ''5.00'' = ''Infinity''"
    by (simp add: calcRoc_def parseFloat_examples js_sub_def js_div_def js_mul_def inf_s_def
        toFixed_nonfinite)
  have "calcRoc (\<lambda>q. []) ''160.00'' ''183.00'' =
          toFixed (\<lambda>q. []) 2
            (js_mul (js_div (js_sub (parseFloat ''183.00'') (parseFloat ''160.00''))
                       (parseFloat ''160.00'')) (Fin 100))"
    by (simp add: calcRoc_def)
  then show "calcRoc (\<lambda>q. []) ''160.00'' ''183.00'' = ''14.37''"
    by (simp only: parseFloat_examples roc_160_183 toFixed_14_37)
qed

theorem calcRoc_by_cases_witness:
  "calcRoc (\<lambda>q. []) ''N/A'' ''5.00'' = ''N/A''
   \<and> is_finite (parseFloat ''0.00'') \<and> is_finite (parseFloat ''5.00'')
   \<and> rat_of (parseFloat ''0.00'') = 0
   \<and> calcRoc (\<lambda>q. []) ''0.00'' ''5.00'' = ''Infinity''
   \<and> is_finite (Fin 160) \<and> is_finite (Fin 183)
   \<and> \<bar>rat_of (Fin 160)\<bar> < 10 ^ 21 \<and> \<bar>rat_of (Fin 183)\<bar> < 10 ^ 21
   \<and> toFixed (\<lambda>q. []) 2 (Fin 160) = ''160.00'' \<and> toFixed (\<lambda>q. []) 2 (Fin 183) = ''183.00''
   \<and> round2 (rat_of (Fin 160)) = 160
   \<and> parseFloat ''160.00'' = Fin 160 \<and> parseFloat ''183.00'' = Fin 183
   \<and> (\<exists>v. calcRoc (\<lambda>q. []) ''160.00'' ''183.00'' = toFixed (\<lambda>q. []) 2 (Fin v)
          \<and> \<bar>v - (183 - 160) / 160 * 100\<bar> \<le> \<bar>(183 - 160) / 160 * 100\<bar> / 2 ^ 51 + 1 / 2 ^ 1000)
   \<and> calcRoc (\<lambda>q. []) ''160.00'' ''183.00'' = ''14.37''
   \<and> is_finite (Fin (1 / 256)) \<and> \<bar>rat_of (Fin (1 / 256))\<bar> < 10 ^ 21
   \<and> round2 (rat_of (Fin (1 / 256))) = 0
   \<and> toFixed (\<lambda>q. []) 2 (Fin (1 / 256)) = ''0.00''
   \<and> calcRoc (\<lambda>q. []) (toFixed (\<lambda>q. []) 2 (Fin (1 / 256))) (toFixed (\<lambda>q. []) 2 (Fin 5))
       \<in> {''NaN'', ''Infinity'', ''-Infinity''}"
proof -
  have a: "calcRoc (\<lambda>q. []) ''N/A'' ''5.00'' = ''N/A''"
    using calcRoc_by_cases [of "''N/A''" "''5.00''" "\<lambda>q. []" "Fin 0" "Fin 0"] by simp
  have b: "\<exists>v. calcRoc (\<lambda>q. []) ''160.00'' ''183.00'' = toFixed (\<lambda>q. []) 2 (Fin v)
          \<and> \<bar>v - (183 - 160) / 160 * 100\<bar> \<le> \<bar>(183 - 160) / 160 * 100\<bar> / 2 ^ 51 + 1 / 2 ^ 1000"
    using calcRoc_by_cases [of "''N/A''" "''N/A''" "\<lambda>q. []" "Fin 160" "Fin 183"]
    by (simp add: is_finite_def toFixed_examples round2_examples parseFloat_examples)
  have c: "calcRoc (\<lambda>q. []) (toFixed (\<lambda>q. []) 2 (Fin (1 / 256))) (toFixed (\<lambda>q. []) 2 (Fin 5))
       \<in> {''NaN'', ''Infinity'', ''-Infinity''}"
    using calcRoc_by_cases [of "''N/A''" "''N/A''" "\<lambda>q. []" "Fin (1 / 256)" "Fin 5"]
    by (simp add: is_finite_def round2_examples)
  have d: "is_finite (parseFloat ''0.00'')" "is_finite (parseFloat ''5.00'')"
    "rat_of (parseFloat ''0.00'') = 0"
    by (simp_all add: parseFloat_examples is_finite_def)
  have e: "is_finite (Fin 160)" "is_finite (Fin 183)" "is_finite (Fin (1 / 256))"
    "\<bar>rat_of (Fin 160)\<bar> < 10 ^ 21" "\<bar>rat_of (Fin 183)\<bar> < 10 ^ 21"
    "\<bar>rat_of (Fin (1 / 256))\<bar> < 10 ^ 21"
    "round2 (rat_of (Fin 160)) = 160" "round2 (rat_of (Fin (1 / 256))) = 0"
    by (simp_all add: is_finite_def round2_examples)
  show ?thesis
    using a b c d e
    by (intro conjI) (simp_all only: toFixed_examples parseFloat_examples calcRoc_examples)
qed

text \<open>
  The claim as stated fails where the first-half aggregate is zero: for the two readings
  with temperatures 0 and 5 the first-half average is 0.00, the second-half average is
  5.00, and the rate of change of the average temperature is the text Infinity.
\<close>

theorem calcRoc_zero_first_counterexample:
  "tempAvg (calcMetrics (\<lambda>q. []) (fst (halves
       [\<lparr>tempF = Fin 0, pressurePSI = Fin 30, vibrationMM = Fin 2, timestamp = ''t0''\<rparr>,
        \<lparr>tempF = Fin 5, pressurePSI = Fin 33, vibrationMM = Fin 1, timestamp = ''t1''\<rparr>]))) = ''0.00''
   \<and> tempAvg (calcMetrics (\<lambda>q. []) (snd (halves
       [\<lparr>tempF = Fin 0, pressurePSI = Fin 30, vibrationMM = Fin 2, timestamp = ''t0''\<rparr>,
        \<lparr>tempF = Fin 5, pressurePSI = Fin 33, vibrationMM = Fin 1, timestamp = ''t1''\<rparr>]))) = ''5.00''
   \<and> parseFloat ''0.00'' = Fin 0
   \<and> calcRoc (\<lambda>q. []) ''0.00'' ''5.00'' = ''Infinity''
   \<and> calcRoc (\<lambda>q. []) ''0.00'' ''5.00'' \<noteq> ''N/A''"
proof -
  have h: "halves [\<lparr>tempF = Fin 0, pressurePSI = Fin 30, vibrationMM = Fin 2, timestamp = ''t0''\<rparr>,
        \<lparr>tempF = Fin 5, pressurePSI = Fin 33, vibrationMM = Fin 1, timestamp = ''t1''\<rparr>]
     = ([\<lparr>tempF = Fin 0, pressurePSI = Fin 30, vibrationMM = Fin 2, timestamp = ''t0''\<rparr>],
        [\<lparr>tempF = Fin 5, pressurePSI = Fin 33, vibrationMM = Fin 1, timestamp = ''t1''\<rparr>])"
    by (simp add: halves_take_drop)
  have m0: "mean [Fin 0] = Fin 0" and m5: "mean [Fin 5] = Fin 5"
    by (simp_all add: mean_def js_div_def zero_s_def round64_numeral)
  have a: "tempAvg (calcMetrics (\<lambda>q. []) [\<lparr>tempF = Fin 0, pressurePSI = Fin 30, vibrationMM = Fin 2, timestamp = ''t0''\<rparr>]) = ''0.00''"
    by (simp add: calcMetrics_def Let_def m0 toFixed_examples)
  have b: "tempAvg (calcMetrics (\<lambda>q. []) [\<lparr>tempF = Fin 5, pressurePSI = Fin 33, vibrationMM = Fin 1, timestamp = ''t1''\<rparr>]) = ''5.00''"
    by (simp add: calcMetrics_def Let_def m5 toFixed_examples)
  show ?thesis
    by (simp only: h fst_conv snd_conv a b parseFloat_examples calcRoc_examples) simp
qed
section \<open>The rate of change within a chunk\<close>

lemma chunkRoC_map:
  "chunkRoC ts (map f seg) =
     (if 2 \<le> length seg
      then toFixed ts 2 (js_mul (js_div (js_sub (f (last seg)) (f (hd seg))) (f (hd seg))) (Fin 100))
      else ''0.00'')"
proof (cases "2 \<le> length seg")
  case True
  then have ne: "seg \<noteq> []" by auto
  have l: "map f seg ! (length seg - 1) = f (last seg)"
    using ne by (simp add: last_conv_nth)
  have h: "map f seg ! 0 = f (hd seg)"
    using ne by (simp add: hd_conv_nth)
  have g: "length (map f seg) > 1" using True by simp
  show ?thesis
    unfolding chunkRoC_def using True g by (simp only: l h length_map if_True)
next
  case False
  then show ?thesis by (simp add: chunkRoC_def)
qed

lemma roc_makeChunk:
  "tempRoC (makeChunk ts timeRange cfg numChunks i seg) = chunkRoC ts (map tempF seg)"
  "pressureRoC (makeChunk ts timeRange cfg numChunks i seg) = chunkRoC ts (map pressurePSI seg)"
  "vibrationRoC (makeChunk ts timeRange cfg numChunks i seg) = chunkRoC ts (map vibrationMM seg)"
  by (simp_all add: makeChunk_def Let_def)

lemma calculateChunkedMetrics_nth:
  assumes "i < nat \<lceil>rat_of_nat (length readings) / rat_of_nat (size_cfg (chunkConfigOf timeRange))\<rceil>"
  shows "calculateChunkedMetrics ts readings timeRange
           ! (nat \<lceil>rat_of_nat (length readings) / rat_of_nat (size_cfg (chunkConfigOf timeRange))\<rceil> - 1 - i)
         = makeChunk ts timeRange (chunkConfigOf timeRange)
             (nat \<lceil>rat_of_nat (length readings) / rat_of_nat (size_cfg (chunkConfigOf timeRange))\<rceil>) i
             (chunkReadingsOf readings (size_cfg (chunkConfigOf timeRange)) i)"
proof -
  let ?N = "nat \<lceil>rat_of_nat (length readings) / rat_of_nat (size_cfg (chunkConfigOf timeRange))\<rceil>"
  let ?g = "generatedChunks ts readings timeRange"
  have len: "length ?g = ?N" by (rule length_generatedChunks)
  have j: "?N - 1 - i < length ?g" using assms len by simp
  have "rev ?g ! (?N - 1 - i) = ?g ! (length ?g - Suc (?N - 1 - i))"
    using j by (rule rev_nth)
  also have "length ?g - Suc (?N - 1 - i) = i" using assms len by simp
  also have "?g ! i = makeChunk ts timeRange (chunkConfigOf timeRange) ?N i
             (chunkReadingsOf readings (size_cfg (chunkConfigOf timeRange)) i)"
    using assms by (simp add: generatedChunks_map del: upt_Suc)
  finally show ?thesis by (simp only: calculateChunkedMetrics_rev)
qed

lemma chunk_ends:
  assumes "chunkReadingsOf readings c i \<noteq> []"
  shows "hd (chunkReadingsOf readings c i) = readings ! (i * c)"
    and "last (chunkReadingsOf readings c i) = readings ! (min ((i + 1) * c) (length readings) - 1)"
proof -
  define lo where "lo = i * c"
  define hi where "hi = min ((i + 1) * c) (length readings)"
  have e: "chunkReadingsOf readings c i = map (\<lambda>k. readings ! k) [lo ..< hi]"
    unfolding lo_def hi_def by (rule chunkReadingsOf_nth)
  have u: "[lo ..< hi] \<noteq> []" using assms unfolding e by simp
  then have lt: "lo < hi" by simp
  have "hd (map (\<lambda>k. readings ! k) [lo ..< hi]) = readings ! hd [lo ..< hi]"
    using u by (rule hd_map)
  also have "hd [lo ..< hi] = lo" using lt by (rule hd_upt)
  finally have "hd (chunkReadingsOf readings c i) = readings ! lo" by (simp only: e)
  then show "hd (chunkReadingsOf readings c i) = readings ! (i * c)" by (simp only: lo_def)
  have "last (map (\<lambda>k. readings ! k) [lo ..< hi]) = readings ! last [lo ..< hi]"
    using u by (rule last_map)
  also have "last [lo ..< hi] = hi - 1" using lt by (rule last_upt)
  finally have "last (chunkReadingsOf readings c i) = readings ! (hi - 1)" by (simp only: e)
  then show "last (chunkReadingsOf readings c i) = readings ! (min ((i + 1) * c) (length readings) - 1)"
    by (simp only: hi_def)
qed

text \<open>
  C5, as the code has it: chunk i, which the result holds at position N - 1 - i, is built
  from the slice readings[i*c, min((i+1)*c, n)). For each metric, if the slice has one
  reading the rate of change is the text 0.00. If it has two or more, the rate of change is
  \<open>((last - first) / first) * 100\<close> of the slice's first and last readings, computed in
  binary64 and printed with two decimals. If the first reading is zero, that is one of the
  texts NaN, Infinity and -Infinity. For finite readings, the first between \<open>2^-64\<close> and
  \<open>2^70\<close> in magnitude and the last \<open>2^70\<close> at most, it is the text, with two decimals, of
  a number within a relative distance of \<open>2^-51\<close> of the exact quotient (up to
  \<open>2^-1000\<close>); it is that number which is rounded to two decimals, so the text can differ
  in its last digit from the exact quotient rounded to two decimals.
\<close>

theorem chunk_rate_of_change:
  fixes readings :: "reading list" and timeRange :: jsnum and i :: nat and ts :: "rat \<Rightarrow> string"
  defines "c \<equiv> size_cfg (chunkConfigOf timeRange)"
  defines "N \<equiv> nat \<lceil>rat_of_nat (length readings) / rat_of_nat (size_cfg (chunkConfigOf timeRange))\<rceil>"
  defines "seg \<equiv> chunkReadingsOf readings (size_cfg (chunkConfigOf timeRange)) i"
  defines "ch \<equiv> calculateChunkedMetrics ts readings timeRange
                   ! (nat \<lceil>rat_of_nat (length readings) / rat_of_nat (size_cfg (chunkConfigOf timeRange))\<rceil> - 1 - i)"
  assumes i: "i < N"
  shows "chunkIndex ch = i
    \<and> hd seg = readings ! (i * c)
    \<and> last seg = readings ! (min ((i + 1) * c) (length readings) - 1)
    \<and> (\<forall>(metric, rate) \<in> {(tempF, tempRoC), (pressurePSI, pressureRoC), (vibrationMM, vibrationRoC)}.
          (length seg = 1 \<longrightarrow> rate ch = ''0.00'')
          \<and> (2 \<le> length seg \<longrightarrow>
               rate ch = toFixed ts 2
                          (js_mul (js_div (js_sub (metric (last seg)) (metric (hd seg))) (metric (hd seg)))
                             (Fin 100)))
          \<and> (2 \<le> length seg \<and> is_zero (metric (hd seg)) \<longrightarrow>
               rate ch \<in> {''NaN'', ''Infinity'', ''-Infinity''})
          \<and> (2 \<le> length seg \<and> is_finite (metric (hd seg)) \<and> is_finite (metric (last seg))
               \<and> 1 / 2 ^ 64 \<le> \<bar>rat_of (metric (hd seg))\<bar> \<and> \<bar>rat_of (metric (hd seg))\<bar> \<le> 2 ^ 70
               \<and> \<bar>rat_of (metric (last seg))\<bar> \<le> 2 ^ 70 \<longrightarrow>
               (\<exists>v. rate ch = toFixed ts 2 (Fin v)
                  \<and> \<bar>v - (rat_of (metric (last seg)) - rat_of (metric (hd seg)))
                            / rat_of (metric (hd seg)) * 100\<bar>
                      \<le> \<bar>(rat_of (metric (last seg)) - rat_of (metric (hd seg)))
                            / rat_of (metric (hd seg)) * 100\<bar> / 2 ^ 51 + 1 / 2 ^ 1000)))"
proof -
  have ch: "ch = makeChunk ts timeRange (chunkConfigOf timeRange) N i seg"
    unfolding ch_def N_def seg_def using i [unfolded N_def] by (rule calculateChunkedMetrics_nth)
  have ne: "seg \<noteq> []"
    unfolding seg_def using size_cfg_pos i [unfolded N_def] by (rule chunkReadingsOf_nonempty)
  have idx: "chunkIndex ch = i" by (simp add: ch chunkIndex_makeChunk)
  have h: "hd seg = readings ! (i * c)"
    unfolding seg_def c_def using ne [unfolded seg_def] by (rule chunk_ends(1))
  have l: "last seg = readings ! (min ((i + 1) * c) (length readings) - 1)"
    unfolding seg_def c_def using ne [unfolded seg_def] by (rule chunk_ends(2))
  let ?Q = "\<lambda>(f :: reading \<Rightarrow> jsnum) (r :: string).
          (length seg = 1 \<longrightarrow> r = ''0.00'')
          \<and> (2 \<le> length seg \<longrightarrow>
               r = toFixed ts 2
                          (js_mul (js_div (js_sub (f (last seg)) (f (hd seg))) (f (hd seg)))
                             (Fin 100)))
          \<and> (2 \<le> length seg \<and> is_zero (f (hd seg)) \<longrightarrow>
               r \<in> {''NaN'', ''Infinity'', ''-Infinity''})
          \<and> (2 \<le> length seg \<and> is_finite (f (hd seg)) \<and> is_finite (f (last seg))
               \<and> 1 / 2 ^ 64 \<le> \<bar>rat_of (f (hd seg))\<bar> \<and> \<bar>rat_of (f (hd seg))\<bar> \<le> 2 ^ 70
               \<and> \<bar>rat_of (f (last seg))\<bar> \<le> 2 ^ 70 \<longrightarrow>
               (\<exists>v. r = toFixed ts 2 (Fin v)
                  \<and> \<bar>v - (rat_of (f (last seg)) - rat_of (f (hd seg)))
                            / rat_of (f (hd seg)) * 100\<bar>
                      \<le> \<bar>(rat_of (f (last seg)) - rat_of (f (hd seg)))
                            / rat_of (f (hd seg)) * 100\<bar> / 2 ^ 51 + 1 / 2 ^ 1000))"
  have one: "?Q f (chunkRoC ts (map f seg))" for f :: "reading \<Rightarrow> jsnum"
  proof (intro conjI impI)
    assume "length seg = 1"
    then show "chunkRoC ts (map f seg) = ''0.00''" by (simp add: chunkRoC_map)
  next
    assume "2 \<le> length seg"
    then show "chunkRoC ts (map f seg) = toFixed ts 2
                          (js_mul (js_div (js_sub (f (last seg)) (f (hd seg))) (f (hd seg)))
                             (Fin 100))"
      by (simp add: chunkRoC_map)
  next
    assume a: "2 \<le> length seg \<and> is_zero (f (hd seg))"
    then have e: "chunkRoC ts (map f seg) = toFixed ts 2
                          (js_mul (js_div (js_sub (f (last seg)) (f (hd seg))) (f (hd seg)))
                             (Fin 100))"
      by (simp add: chunkRoC_map)
    from a have "is_zero (f (hd seg))" by (rule conjunct2)
    then show "chunkRoC ts (map f seg) \<in> {''NaN'', ''Infinity'', ''-Infinity''}"
      unfolding e by (rule roc_zero_first)
  next
    assume a: "2 \<le> length seg \<and> is_finite (f (hd seg)) \<and> is_finite (f (last seg))
               \<and> 1 / 2 ^ 64 \<le> \<bar>rat_of (f (hd seg))\<bar> \<and> \<bar>rat_of (f (hd seg))\<bar> \<le> 2 ^ 70
               \<and> \<bar>rat_of (f (last seg))\<bar> \<le> 2 ^ 70"
    then have e: "chunkRoC ts (map f seg) = toFixed ts 2
                          (js_mul (js_div (js_sub (f (last seg)) (f (hd seg))) (f (hd seg)))
                             (Fin 100))"
      by (simp add: chunkRoC_map)
    from a have b: "is_finite (f (hd seg))" "is_finite (f (last seg))"
      "1 / 2 ^ 64 \<le> \<bar>rat_of (f (hd seg))\<bar>" "\<bar>rat_of (f (hd seg))\<bar> \<le> 2 ^ 70"
      "\<bar>rat_of (f (last seg))\<bar> \<le> 2 ^ 70"
      by simp_all
    show "\<exists>v. chunkRoC ts (map f seg) = toFixed ts 2 (Fin v)
                  \<and> \<bar>v - (rat_of (f (last seg)) - rat_of (f (hd seg)))
                            / rat_of (f (hd seg)) * 100\<bar>
                      \<le> \<bar>(rat_of (f (last seg)) - rat_of (f (hd seg)))
                            / rat_of (f (hd seg)) * 100\<bar> / 2 ^ 51 + 1 / 2 ^ 1000"
      unfolding e using b by (rule roc_text_accuracy)
  qed
  have t: "?Q tempF (tempRoC ch)"
    using one [of tempF] by (simp only: ch roc_makeChunk)
  have p: "?Q pressurePSI (pressureRoC ch)"
    using one [of pressurePSI] by (simp only: ch roc_makeChunk)
  have v: "?Q vibrationMM (vibrationRoC ch)"
    using one [of vibrationMM] by (simp only: ch roc_makeChunk)
  have "\<forall>(metric, rate) \<in> {(tempF, tempRoC), (pressurePSI, pressureRoC), (vibrationMM, vibrationRoC)}.
          ?Q metric (rate ch)"
  proof (intro ballI)
    fix x :: "(reading \<Rightarrow> jsnum) \<times> (chunk \<Rightarrow> string)"
    assume "x \<in> {(tempF, tempRoC), (pressurePSI, pressureRoC), (vibrationMM, vibrationRoC)}"
    then consider "x = (tempF, tempRoC)" | "x = (pressurePSI, pressureRoC)"
      | "x = (vibrationMM, vibrationRoC)" by blast
    then show "case x of (metric, rate) \<Rightarrow> ?Q metric (rate ch)"
    proof cases
      case 1
      show ?thesis unfolding 1 prod.case by (rule t)
    next
      case 2
      show ?thesis unfolding 2 prod.case by (rule p)
    next
      case 3
      show ?thesis unfolding 3 prod.case by (rule v)
    qed
  qed
  then show ?thesis
    using idx h l by (intro conjI)
qed

lemma round64_one: "round64 1 = Fin 1" "round64 (- 1) = Fin (- 1)"
  using round64_int [of 1] round64_int [of "- 1"] by simp_all

lemma roc_exact_examples:
  "js_mul (js_div (js_sub (Fin 150) (Fin 100)) (Fin 100)) (Fin 100) = Fin 50"
  "js_mul (js_div (js_sub (Fin 1) (Fin 2)) (Fin 2)) (Fin 100) = Fin (- 50)"
  "js_mul (js_div (js_sub (Fin 5) (Fin 0)) (Fin 0)) (Fin 100) = PosInf"
  by (simp_all add: js_sub_def js_div_def js_mul_def inf_s_def
      round64_numeral round64_neg_numeral round64_half round64_one)

lemma one_chunk_of_two:
  "calculateChunkedMetrics ts [r0, r1] (Fin 1) ! 0
     = makeChunk ts (Fin 1) (chunkConfigOf (Fin 1)) 1 0 [r0, r1]"
proof -
  have N: "nat \<lceil>rat_of_nat (length [r0, r1]) / rat_of_nat (size_cfg (chunkConfigOf (Fin 1)))\<rceil> = 1"
    by (simp add: chunkConfigOf_cases ceiling_rat_numeral_div)
  have seg: "chunkReadingsOf [r0, r1] (size_cfg (chunkConfigOf (Fin 1))) 0 = [r0, r1]"
    by (simp add: chunkReadingsOf_eq chunkConfigOf_cases)
  have "0 < nat \<lceil>rat_of_nat (length [r0, r1]) / rat_of_nat (size_cfg (chunkConfigOf (Fin 1)))\<rceil>"
    by (simp only: N)
  then show ?thesis
    using calculateChunkedMetrics_nth [of 0 "[r0, r1]" "Fin 1" ts] by (simp only: N seg) simp
qed

theorem chunk_rate_of_change_witness:
  "(0::nat) < nat \<lceil>rat_of_nat (length
        [\<lparr>tempF = Fin 100, pressurePSI = Fin 30, vibrationMM = Fin 2, timestamp = ''t0''\<rparr>,
         \<lparr>tempF = Fin 150, pressurePSI = Fin 33, vibrationMM = Fin 1, timestamp = ''t1''\<rparr>])
        / rat_of_nat (size_cfg (chunkConfigOf (Fin 1)))\<rceil>
   \<and> length (chunkReadingsOf
        [\<lparr>tempF = Fin 100, pressurePSI = Fin 30, vibrationMM = Fin 2, timestamp = ''t0''\<rparr>,
         \<lparr>tempF = Fin 150, pressurePSI = Fin 33, vibrationMM = Fin 1, timestamp = ''t1''\<rparr>]
        (size_cfg (chunkConfigOf (Fin 1))) 0) = 2
   \<and> tempRoC (calculateChunkedMetrics (\<lambda>q. [])
        [\<lparr>tempF = Fin 100, pressurePSI = Fin 30, vibrationMM = Fin 2, timestamp = ''t0''\<rparr>,
         \<lparr>tempF = Fin 150, pressurePSI = Fin 33, vibrationMM = Fin 1, timestamp = ''t1''\<rparr>] (Fin 1) ! 0)
       = ''50.00''
   \<and> vibrationRoC (calculateChunkedMetrics (\<lambda>q. [])
        [\<lparr>tempF = Fin 100, pressurePSI = Fin 30, vibrationMM = Fin 2, timestamp = ''t0''\<rparr>,
         \<lparr>tempF = Fin 150, pressurePSI = Fin 33, vibrationMM = Fin 1, timestamp = ''t1''\<rparr>] (Fin 1) ! 0)
       = ''-50.00''
   \<and> (\<exists>v. tempRoC (calculateChunkedMetrics (\<lambda>q. [])
        [\<lparr>tempF = Fin 100, pressurePSI = Fin 30, vibrationMM = Fin 2, timestamp = ''t0''\<rparr>,
         \<lparr>tempF = Fin 150, pressurePSI = Fin 33, vibrationMM = Fin 1, timestamp = ''t1''\<rparr>] (Fin 1) ! 0)
          = toFixed (\<lambda>q. []) 2 (Fin v)
        \<and> \<bar>v - (150 - 100) / 100 * 100\<bar> \<le> \<bar>(150 - 100) / 100 * 100\<bar> / 2 ^ 51 + 1 / 2 ^ 1000)"
proof -
  let ?rs = "[\<lparr>tempF = Fin 100, pressurePSI = Fin 30, vibrationMM = Fin 2, timestamp = ''t0''\<rparr>,
              \<lparr>tempF = Fin 150, pressurePSI = Fin 33, vibrationMM = Fin 1, timestamp = ''t1''\<rparr>]"
  have N: "nat \<lceil>rat_of_nat (length ?rs) / rat_of_nat (size_cfg (chunkConfigOf (Fin 1)))\<rceil> = 1"
    by (simp add: chunkConfigOf_cases ceiling_rat_numeral_div)
  have h: "(0::nat) < nat \<lceil>rat_of_nat (length ?rs) / rat_of_nat (size_cfg (chunkConfigOf (Fin 1)))\<rceil>"
    by (simp only: N)
  have seg: "chunkReadingsOf ?rs (size_cfg (chunkConfigOf (Fin 1))) 0 = ?rs"
    by (simp add: chunkReadingsOf_eq chunkConfigOf_cases)
  have len: "length (chunkReadingsOf ?rs (size_cfg (chunkConfigOf (Fin 1))) 0) = 2"
    by (simp only: seg) simp
  note t = chunk_rate_of_change [where i = 0 and readings = ?rs and timeRange = "Fin 1"
      and ts = "\<lambda>q. []", OF h, THEN conjunct2, THEN conjunct2, THEN conjunct2, unfolded N seg]
  have a: "tempRoC (calculateChunkedMetrics (\<lambda>q. []) ?rs (Fin 1) ! 0) = ''50.00''"
    using bspec [OF t, of "(tempF, tempRoC)"]
    by (simp add: roc_exact_examples toFixed_examples)
  have b: "vibrationRoC (calculateChunkedMetrics (\<lambda>q. []) ?rs (Fin 1) ! 0) = ''-50.00''"
    using bspec [OF t, of "(vibrationMM, vibrationRoC)"]
    by (simp add: roc_exact_examples toFixed_examples)
  have c: "\<exists>v. tempRoC (calculateChunkedMetrics (\<lambda>q. []) ?rs (Fin 1) ! 0)
          = toFixed (\<lambda>q. []) 2 (Fin v)
        \<and> \<bar>v - (150 - 100) / 100 * 100\<bar> \<le> \<bar>(150 - 100) / 100 * 100\<bar> / 2 ^ 51 + 1 / 2 ^ 1000"
  proof -
    have m: "(tempF, tempRoC) \<in> {(tempF, tempRoC), (pressurePSI, pressureRoC), (vibrationMM, vibrationRoC)}"
      by simp
    note q = bspec [OF t m, unfolded prod.case, THEN conjunct2, THEN conjunct2, THEN conjunct2]
    show ?thesis using q by (simp add: is_finite_def)
  qed
  show ?thesis using h len a b c by (intro conjI)
qed

text \<open>
  The claim as stated fails for the chunk of the two readings with temperatures 160 and
  183 and pressures 0 and 5. The exact rate of change of the temperature is 14.375, which
  rounded to two decimals is 14.38; the code prints 14.37, because the quotient and the
  product are rounded to binary64 numbers first, to a number below 14.375. The rate of
  change of the pressure, whose first reading is zero, is the text Infinity.
\<close>

theorem chunk_rate_of_change_counterexample:
  "length (chunkReadingsOf
        [\<lparr>tempF = Fin 160, pressurePSI = Fin 0, vibrationMM = Fin 2, timestamp = ''t0''\<rparr>,
         \<lparr>tempF = Fin 183, pressurePSI = Fin 5, vibrationMM = Fin 1, timestamp = ''t1''\<rparr>]
        (size_cfg (chunkConfigOf (Fin 1))) 0) = 2
   \<and> tempRoC (calculateChunkedMetrics (\<lambda>q. [])
        [\<lparr>tempF = Fin 160, pressurePSI = Fin 0, vibrationMM = Fin 2, timestamp = ''t0''\<rparr>,
         \<lparr>tempF = Fin 183, pressurePSI = Fin 5, vibrationMM = Fin 1, timestamp = ''t1''\<rparr>] (Fin 1) ! 0)
       = ''14.37''
   \<and> (183 - 160) / 160 * 100 = (14375 / 1000 :: rat)
   \<and> round2 ((183 - 160) / 160 * 100) = 1438 / 100
   \<and> toFixed (\<lambda>q. []) 2 (Fin ((183 - 160) / 160 * 100)) = ''14.38''
   \<and> pressureRoC (calculateChunkedMetrics (\<lambda>q. [])
        [\<lparr>tempF = Fin 160, pressurePSI = Fin 0, vibrationMM = Fin 2, timestamp = ''t0''\<rparr>,
         \<lparr>tempF = Fin 183, pressurePSI = Fin 5, vibrationMM = Fin 1, timestamp = ''t1''\<rparr>] (Fin 1) ! 0)
       = ''Infinity''"
proof -
  let ?rs = "[\<lparr>tempF = Fin 160, pressurePSI = Fin 0, vibrationMM = Fin 2, timestamp = ''t0''\<rparr>,
              \<lparr>tempF = Fin 183, pressurePSI = Fin 5, vibrationMM = Fin 1, timestamp = ''t1''\<rparr>]"
  have seg: "chunkReadingsOf ?rs (size_cfg (chunkConfigOf (Fin 1))) 0 = ?rs"
    by (simp add: chunkReadingsOf_eq chunkConfigOf_cases)
  have len: "length (chunkReadingsOf ?rs (size_cfg (chunkConfigOf (Fin 1))) 0) = 2"
    by (simp only: seg) simp
  have "tempRoC (calculateChunkedMetrics (\<lambda>q. []) ?rs (Fin 1) ! 0)
          = toFixed (\<lambda>q. []) 2 (js_mul (js_div (js_sub (Fin 183) (Fin 160)) (Fin 160)) (Fin 100))"
    by (simp add: one_chunk_of_two roc_makeChunk chunkRoC_def)
  then have a: "tempRoC (calculateChunkedMetrics (\<lambda>q. []) ?rs (Fin 1) ! 0) = ''14.37''"
    by (simp only: roc_160_183 toFixed_14_37)
  have "pressureRoC (calculateChunkedMetrics (\<lambda>q. []) ?rs (Fin 1) ! 0)
          = toFixed (\<lambda>q. []) 2 (js_mul (js_div (js_sub (Fin 5) (Fin 0)) (Fin 0)) (Fin 100))"
    by (simp add: one_chunk_of_two roc_makeChunk chunkRoC_def)
  then have b: "pressureRoC (calculateChunkedMetrics (\<lambda>q. []) ?rs (Fin 1) ! 0) = ''Infinity''"
    by (simp only: roc_exact_examples toFixed_nonfinite)
  have c: "(183 - 160) / 160 * 100 = (14375 / 1000 :: rat)" by simp
  have d: "round2 ((183 - 160) / 160 * 100) = 1438 / 100"
    by (simp add: round2_def floor_rat_numeral_div)
  show ?thesis using len a c d toFixed_14_38 b by (intro conjI)
qed

end
